theory Spec2Isabelle
  imports Main "HOL-Library.Product_Lexorder" "HOL-Library.List_Lexorder" "HOL-Library.Char_ord"
begin

section \<open>fireway: a shallow embedding of \<^verbatim>\<open>src/index.js\<close>\<close>

text \<open>
  The development follows the source file from top to bottom: the library functions the
  engine calls on strings and versions, the data it builds, the write interceptor
  (\<^verbatim>\<open>proxyWritableMethods\<close>), the tracker (\<^verbatim>\<open>trackAsync\<close>) and the
  orchestrator (\<^verbatim>\<open>migrate\<close>). Exceptions are values of the type \<open>error\<close>,
  mutation of the stats object and of the backend is explicit state passing, and the loop
  over the pending files is a recursive function.
\<close>

subsection \<open>Decimal text of numbers\<close>

text \<open>
  JavaScript template strings render the integers that occur here (ranks, counters and
  version components) in decimal. Characters are ASCII throughout.
\<close>

definition is_digit :: "char \<Rightarrow> bool" where
  "is_digit c = (c \<in> set ''0123456789'')"

definition digit_char :: "nat \<Rightarrow> char" where
  "digit_char d = ''0123456789'' ! d"

fun show_nat :: "nat \<Rightarrow> string" where
  "show_nat n = (if n < 10 then [digit_char n] else show_nat (n div 10) @ [digit_char (n mod 10)])"

declare show_nat.simps [simp del]

definition show_int :: "int \<Rightarrow> string" where
  "show_int i = (if i < 0 then CHR ''-'' # show_nat (nat (- i)) else show_nat (nat i))"

definition digit_val :: "char \<Rightarrow> nat" where
  "digit_val c = length (takeWhile (\<lambda>d. d \<noteq> c) ''0123456789'')"

definition read_nat :: "string \<Rightarrow> nat" where
  "read_nat ds = foldl (\<lambda>n c. 10 * n + digit_val c) 0 ds"

subsection \<open>Versions and the \<^verbatim>\<open>semver\<close> package\<close>

text \<open>
  \<^verbatim>\<open>semver.coerce\<close> returns a SemVer object without pre-release tags, and the engine
  keeps its \<^verbatim>\<open>version\<close> property, the text \<^verbatim>\<open>major.minor.patch\<close>. The model keeps
  the three numbers, which determine that text (\<open>version_string\<close>); every version the
  engine writes to the history has this form, and the history it reads back is typed the
  same way. On such versions \<^verbatim>\<open>semver.compare\<close> is the lexicographic order on the
  triple, which is the order \<open><\<close> of the type, and \<^verbatim>\<open>semver.gt a b\<close> is \<open>b < a\<close>.
\<close>

type_synonym version = "nat \<times> nat \<times> nat"

definition version_string :: "version \<Rightarrow> string" where
  "version_string v = (case v of (major, minor, patch) \<Rightarrow>
     show_nat major @ ''.'' @ show_nat minor @ ''.'' @ show_nat patch)"

definition MAX_SAFE_INTEGER :: nat where
  "MAX_SAFE_INTEGER = 9007199254740991"

definition MAX_SAFE_COMPONENT_LENGTH :: nat where
  "MAX_SAFE_COMPONENT_LENGTH = 16"

text \<open>
  Modelled from the spec: \<^verbatim>\<open>semver.coerce\<close> belongs to the semver package, which is not
  under \<^verbatim>\<open>src/\<close>; the spec calls it a lenient coercion that tolerates missing components
  and extracts leading numeric tokens. The package matches the pattern
  \<^verbatim>\<open>(^|[^\d])(\d{1,16})(?:\.(\d{1,16}))?(?:\.(\d{1,16}))?(?:$|[^\d])\<close> at the leftmost
  position and parses \<^verbatim>\<open>major.minor.patch\<close> strictly (no leading zeros, no component
  above \<^verbatim>\<open>Number.MAX_SAFE_INTEGER\<close>). \<open>find_major\<close> is the leftmost maximal run of
  at most 16 digits, \<open>dot_group\<close> one optional group.
\<close>

function find_major :: "string \<Rightarrow> (string \<times> string) option" where
  "find_major [] = None"
| "find_major (c # s) =
     (if is_digit c
      then (if length (takeWhile is_digit (c # s)) \<le> MAX_SAFE_COMPONENT_LENGTH
            then Some (takeWhile is_digit (c # s), dropWhile is_digit (c # s))
            else find_major (dropWhile is_digit s))
      else find_major s)"
  by pat_completeness auto
termination
  by (relation "measure length") (auto simp: less_Suc_eq_le length_dropWhile_le)

definition dot_group :: "string \<Rightarrow> (string \<times> string) option" where
  "dot_group s = (case s of
       [] \<Rightarrow> None
     | c # t \<Rightarrow>
         (if c = CHR ''.'' \<and> 1 \<le> length (takeWhile is_digit t)
               \<and> length (takeWhile is_digit t) \<le> MAX_SAFE_COMPONENT_LENGTH
          then Some (takeWhile is_digit t, dropWhile is_digit t)
          else None))"

definition numeric_identifier :: "string \<Rightarrow> bool" where
  "numeric_identifier ds = (ds = ''0'' \<or> (ds \<noteq> [] \<and> hd ds \<noteq> CHR ''0'' \<and> list_all is_digit ds))"

definition parse_main :: "string \<Rightarrow> string \<Rightarrow> string \<Rightarrow> version option" where
  "parse_main ma mi pa =
     (if numeric_identifier ma \<and> numeric_identifier mi \<and> numeric_identifier pa
         \<and> read_nat ma \<le> MAX_SAFE_INTEGER \<and> read_nat mi \<le> MAX_SAFE_INTEGER
         \<and> read_nat pa \<le> MAX_SAFE_INTEGER
      then Some (read_nat ma, read_nat mi, read_nat pa)
      else None)"

definition semver_coerce :: "string \<Rightarrow> version option" where
  "semver_coerce s = (case find_major s of
       None \<Rightarrow> None
     | Some (ma, r1) \<Rightarrow>
         (case dot_group r1 of
            None \<Rightarrow> parse_main ma ''0'' ''0''
          | Some (mi, r2) \<Rightarrow>
              (case dot_group r2 of
                 None \<Rightarrow> parse_main ma mi ''0''
               | Some (pa, r3) \<Rightarrow> parse_main ma mi pa)))"

subsection \<open>String functions of the runtime\<close>

text \<open>
  \<^verbatim>\<open>String.prototype.split\<close> with the separator \<^verbatim>\<open>'__'\<close>: the parts between the
  occurrences of the separator, found from left to right without overlap. The first
  argument accumulates the current part.
\<close>

fun split_sep :: "string \<Rightarrow> string \<Rightarrow> string list" where
  "split_sep acc (a # b # s) =
     (if a = CHR ''_'' \<and> b = CHR ''_'' then acc # split_sep [] s
      else split_sep (acc @ [a]) (b # s))"
| "split_sep acc [a] = [acc @ [a]]"
| "split_sep acc [] = [acc]"

text \<open>
  Modelled from the spec: \<^verbatim>\<open>path.extname\<close>, \<^verbatim>\<open>path.basename\<close> and \<^verbatim>\<open>path.join\<close>
  belong to the Node.js runtime, which is not under \<^verbatim>\<open>src/\<close>; the spec uses them for
  the script type (file extension) and the extension-stripped description. The arguments
  here are directory entries or parts of one, so they hold no path separator, and the
  directory is an absolute, normalised path. \<open>extname\<close> is the text from the last dot,
  empty when there is no dot, when the only dot is the first character, or for \<^verbatim>\<open>..\<close>.
  \<open>path_join\<close> puts one separator between the directory and the entry; the root
  directory, or a directory written with a final separator, brings its own.
\<close>

definition extname :: "string \<Rightarrow> string" where
  "extname p =
     (let after = rev (takeWhile (\<lambda>c. c \<noteq> CHR ''.'') (rev p));
          upto = rev (dropWhile (\<lambda>c. c \<noteq> CHR ''.'') (rev p))
      in if length upto \<le> 1 \<or> p = ''..'' then [] else CHR ''.'' # after)"

definition basename :: "string \<Rightarrow> string \<Rightarrow> string" where
  "basename p suffix =
     (if suffix \<noteq> [] \<and> length suffix \<le> length p
      then (if suffix = p then []
            else if drop (length p - length suffix) p = suffix
            then take (length p - length suffix) p
            else p)
      else p)"

definition path_join :: "string \<Rightarrow> string \<Rightarrow> string" where
  "path_join d name =
     (if d \<noteq> [] \<and> last d = CHR ''/'' then d @ name else d @ ''/'' @ name)"

subsection \<open>Data model\<close>

record versioned =
  version :: version
  description :: string

text \<open>The object built for each migration file (lines 276-281).\<close>

record migration_file = versioned +
  filename :: string
  path :: string

text \<open>The document written to the \<^verbatim>\<open>fireway\<close> collection (lines 396-407).\<close>

record history_record = versioned +
  installed_rank :: int
  script :: string
  type :: string
  checksum :: string
  installed_by :: string
  installed_on :: nat
  execution_time :: int
  success :: bool

text \<open>
  The stats object (lines 220-228). \<open>set'\<close> is the counter \<^verbatim>\<open>set\<close>; \<open>frozen\<close> is
  the property that line 392 sets and line 410 deletes. The counters only ever grow by
  one from zero, far below the range where JavaScript numbers lose integers.
\<close>

record run_stats =
  scannedFiles :: nat
  executedFiles :: nat
  created :: nat
  set' :: nat
  updated :: nat
  deleted :: nat
  added :: nat
  frozen :: bool

datatype error =
    RequireFailed string
  | NoDirectory string
  | BadFilename string
  | SameVersion string string
  | BackendFailed
  | PreviousFailed version string
  | LoadFailed string
  | StoppedAtFirstFailure

text \<open>A document handed to the client: one of the migration's own, or a history record.\<close>

datatype 'd doc = UserDoc 'd | HistoryDoc history_record

text \<open>An argument of a call of \<^verbatim>\<open>log\<close>: a string, \<^verbatim>\<open>JSON.stringify(doc)\<close>, or an error.\<close>

datatype 'd log_arg = Str string | Json "'d doc" | Err string

type_synonym 'd line = "'d log_arg list"

subsection \<open>Scanning the directory (lines 246-285)\<close>

text \<open>
  The callback of \<^verbatim>\<open>filenames.map\<close>, run over the listing in order with the Map
  \<^verbatim>\<open>versionToFile\<close>; \<^verbatim>\<open>filter(Boolean)\<close> drops the skipped entries. The result holds
  the warnings logged so far (each a call of \<^verbatim>\<open>log\<close> with one string) and either the
  error thrown or the files. A description is
  falsy when the split has no second part or an empty one.
\<close>

definition description_of :: "string list \<Rightarrow> string option" where
  "description_of parts = (case parts of a # b # rest \<Rightarrow> Some b | _ \<Rightarrow> None)"

definition truthy :: "string option \<Rightarrow> bool" where
  "truthy d = (case d of None \<Rightarrow> False | Some s \<Rightarrow> s \<noteq> [])"

fun parse_files ::
  "(string \<Rightarrow> version option) \<Rightarrow> string \<Rightarrow> (version \<rightharpoonup> string) \<Rightarrow> string list
     \<Rightarrow> string list \<times> (error + migration_file list)" where
  "parse_files co d versionToFile [] = ([], Inr [])"
| "parse_files co d versionToFile (name # rest) =
     (if take 1 name = ''.'' then parse_files co d versionToFile rest
      else
        let parts = split_sep [] name;
            filenameVersion = hd parts;
            desc = description_of parts
        in case co filenameVersion of
             None \<Rightarrow>
               (if truthy desc
                then (case parse_files co d versionToFile rest of (ls, r) \<Rightarrow>
                        ((''WARNING: '' @ name @ '' doesn't have a valid semver version'') # ls, r))
                else parse_files co d versionToFile rest)
           | Some v \<Rightarrow>
               (if \<not> truthy desc then ([], Inl (BadFilename name))
                else if (case versionToFile v of None \<Rightarrow> False | Some existingFile \<Rightarrow> existingFile \<noteq> [])
                then ([], Inl (SameVersion name (the (versionToFile v))))
                else (case parse_files co d (versionToFile(v \<mapsto> name)) rest of (ls, r) \<Rightarrow>
                        (ls, map_sum id
                               ((#) \<lparr>version = v,
                                     description = basename (the desc) (extname (the desc)),
                                     filename = name,
                                     path = path_join d name\<rparr>) r))))"

subsection \<open>The backend and its client\<close>

text \<open>
  Modelled from the spec: the document-database client (\<^verbatim>\<open>@google-cloud/firestore\<close>) is
  not under \<^verbatim>\<open>src/\<close>; the spec gives it document create, set, update and delete, a
  collection-level add that is a create with a generated id, batched writes with an
  explicit commit step, and an ordered, limited query. A write batch holds the operations
  queued on it; its commit sends them to the backend. A document-level call is a batch of
  one operation committed at once, which is why the engine's own history write passes
  through the wrappers below and has to freeze the stats.
\<close>

datatype 'p op =
    OpCreate string 'p
  | OpSet string 'p bool
  | OpUpdate string 'p
  | OpDelete string

text \<open>
  The state of one run: the stats object, the calls of \<^verbatim>\<open>log\<close> (printed by
  \<^verbatim>\<open>console.log\<close> when \<^verbatim>\<open>debug\<close> is set), the lines of \<^verbatim>\<open>console.warn\<close> and
  \<^verbatim>\<open>console.error\<close>, the \<^verbatim>\<open>fireway\<close> collection (document path and record), the
  other writes that reached the backend, and the files whose entry point was invoked.
\<close>

record 'd run_state =
  stats :: run_stats
  logged :: "'d line list"
  stderr :: "string list list"
  history :: "(string \<times> history_record) list"
  data :: "'d doc op list"
  executed :: "migration_file list"

fun put_doc :: "string \<Rightarrow> history_record \<Rightarrow> (string \<times> history_record) list
    \<Rightarrow> (string \<times> history_record) list" where
  "put_doc k v [] = [(k, v)]"
| "put_doc k v ((k', v') # kvs) = (if k' = k then (k, v) # kvs else (k', v') # put_doc k v kvs)"

text \<open>
  The original \<^verbatim>\<open>_commit\<close> (\<^verbatim>\<open>ogCommit\<close>): each operation of the batch reaches the
  backend. Setting a history record stores it in the \<^verbatim>\<open>fireway\<close> collection under its
  path; the migrations' own writes are kept as the sequence that arrived.
\<close>

fun apply_write :: "'d doc op \<Rightarrow> 'd run_state \<Rightarrow> 'd run_state" where
  "apply_write (OpSet r (HistoryDoc h) m) st = st\<lparr>history := put_doc r h (history st)\<rparr>"
| "apply_write w st = st\<lparr>data := data st @ [w]\<rparr>"

definition ogCommit :: "'d doc op list \<Rightarrow> 'd run_state \<Rightarrow> 'd run_state" where
  "ogCommit ws st = fold apply_write ws st"

text \<open>
  The query \<^verbatim>\<open>orderBy('installed_rank', 'desc').limit(1)\<close> (lines 337-342): the record
  of greatest rank, the greater document path deciding between equal ranks.
\<close>

definition newer :: "string \<times> history_record \<Rightarrow> string \<times> history_record \<Rightarrow> bool" where
  "newer a b = ((installed_rank (snd b), fst b) < (installed_rank (snd a), fst a))"

fun latest_doc :: "(string \<times> history_record) list \<Rightarrow> (string \<times> history_record) option" where
  "latest_doc [] = None"
| "latest_doc (e # es) =
     (case latest_doc es of None \<Rightarrow> Some e | Some m \<Rightarrow> if newer m e then Some m else Some e)"

definition get_latest :: "(string \<times> history_record) list \<Rightarrow> history_record option" where
  "get_latest h = map_option snd (latest_doc h)"

subsection \<open>The write interceptor (lines 29-103)\<close>

text \<open>
  The callbacks handed to \<^verbatim>\<open>mitm\<close> (lines 78-102): the counter each one increments
  and the arguments it logs.
\<close>

fun count_op :: "'p op \<Rightarrow> run_stats \<Rightarrow> run_stats" where
  "count_op (OpCreate r d) s = s\<lparr>created := created s + 1\<rparr>"
| "count_op (OpSet r d m) s = s\<lparr>set' := set' s + 1\<rparr>"
| "count_op (OpUpdate r d) s = s\<lparr>updated := updated s + 1\<rparr>"
| "count_op (OpDelete r) s = s\<lparr>deleted := deleted s + 1\<rparr>"

fun log_op :: "'d doc op \<Rightarrow> 'd line" where
  "log_op (OpCreate r d) = [Str ''Creating'', Json d]"
| "log_op (OpSet r d m) = [Str (if m then ''Merging'' else ''Setting''), Str r, Json d]"
| "log_op (OpUpdate r d) = [Str ''Updating'', Str r, Json d]"
| "log_op (OpDelete r) = [Str ''Deleting'', Str r]"

definition log_call :: "'d line \<Rightarrow> 'd run_state \<Rightarrow> 'd run_state" where
  "log_call l st = st\<lparr>logged := logged st @ [l]\<rparr>"

text \<open>
  \<^verbatim>\<open>fn.call(this, args, (stats.frozen ? {} : stats), log)\<close> (lines 65 and 69): while the
  stats are frozen the increment goes to a throw-away object, the line is logged all the
  same.
\<close>

definition fn_call :: "'d doc op \<Rightarrow> 'd run_state \<Rightarrow> 'd run_state" where
  "fn_call w st =
     log_call (log_op w)
       (st\<lparr>stats := (if frozen (stats st) then stats st else count_op w (stats st))\<rparr>)"

definition add_fn :: "'d \<Rightarrow> 'd run_state \<Rightarrow> 'd run_state" where
  "add_fn d st =
     log_call [Str ''Adding'', Json (UserDoc d)]
       (st\<lparr>stats := (if frozen (stats st) then stats st
                       else (stats st)\<lparr>added := added (stats st) + 1\<rparr>)\<rparr>)"

text \<open>
  A write batch: \<open>claimed\<close> says that the registry \<^verbatim>\<open>statsMap\<close> holds the stats object
  stamped on the batch's client (\<^verbatim>\<open>this._firestore._fireway_stats === stats\<close>), which
  is the case for the client the run built (line 332) from line 288 on;
  \<open>fireway_queue\<close> holds the deferred callbacks, \<open>ops\<close> the operations the library
  queued.
\<close>

record 'd batch =
  claimed :: bool
  fireway_queue :: "'d doc op list"
  ops :: "'d doc op list"

fun has_doc :: "'p op \<Rightarrow> bool" where
  "has_doc (OpDelete r) = False"
| "has_doc w = True"

text \<open>
  The wrapper that \<^verbatim>\<open>mitm\<close> installs on \<^verbatim>\<open>WriteBatch.prototype.create\<close>, \<^verbatim>\<open>set\<close>,
  \<^verbatim>\<open>update\<close> and \<^verbatim>\<open>delete\<close> (lines 52-74); \<open>marked\<close> says that the document carries
  the symbol \<^verbatim>\<open>skipWriteBatch\<close>. The original method then queues the operation.
\<close>

definition batch_method :: "'d doc op \<Rightarrow> bool \<Rightarrow> 'd batch \<Rightarrow> 'd batch" where
  "batch_method w marked b =
     (let b' = (if claimed b
                then (if has_doc w \<and> marked then b
                      else b\<lparr>fireway_queue := fireway_queue b @ [w]\<rparr>)
                else b)
      in b'\<lparr>ops := ops b' @ [w]\<rparr>)"

text \<open>
  The replacement of \<^verbatim>\<open>WriteBatch.prototype._commit\<close> (lines 35-46): empty the queue,
  then return the empty result when the run is a dry run, else call the original.
\<close>

definition commit :: "bool \<Rightarrow> 'd batch \<Rightarrow> 'd run_state \<Rightarrow> 'd run_state" where
  "commit dry b st =
     (let st' = fold fn_call (fireway_queue b) st
      in if claimed b \<and> dry then st' else ogCommit (ops b) st')"

text \<open>
  The value the replacement returns: the empty array for a dry run of the claiming run, else
  what the original returns, one write result for each operation of the batch (represented
  here by the operation).
\<close>

definition commit_result :: "bool \<Rightarrow> 'd batch \<Rightarrow> 'd doc op list" where
  "commit_result dry b = (if claimed b \<and> dry then [] else ops b)"

subsection \<open>What a migration does\<close>

text \<open>
  A migration script is arbitrary code; the model keeps what the engine can observe of one
  execution of its entry point: the calls it makes on a database client, whether the entry
  point throws, what the listeners of \<^verbatim>\<open>unhandledRejection\<close> and
  \<^verbatim>\<open>uncaughtException\<close> stored in the variable \<^verbatim>\<open>rejection\<close> (line 178), the
  asynchronous handles still open when the entry point settles (source location, and
  whether the handle ever settles), and the two timestamps. For \<open>rejection\<close>, \<open>None\<close>
  says that no listener fired; the reason a listener stored is \<^verbatim>\<open>undefined\<close> (\<open>None\<close>,
  as after \<^verbatim>\<open>Promise.reject()\<close>) or its text, an empty text being the empty string: these
  two are the falsy reasons of line 192 (\<open>truthy\<close>). The client is the one in the context object
  (\<open>Given\<close>) or one the script obtained elsewhere, which carries no stamp.
\<close>

datatype client = Given | Elsewhere

datatype 'd action =
    DocCall client "'d op"
  | AddCall client string 'd
  | BatchCall client "'d op list" bool

record 'd migration =
  actions :: "'d action list"
  throws :: "string option"
  rejection :: "string option option"
  handles :: "(string \<times> bool) list"
  start :: nat
  finish :: nat

definition new_batch :: "client \<Rightarrow> 'd batch" where
  "new_batch c = \<lparr>claimed = (c = Given), fireway_queue = [], ops = []\<rparr>"

definition doc_call :: "bool \<Rightarrow> client \<Rightarrow> 'd doc op \<Rightarrow> 'd run_state \<Rightarrow> 'd run_state" where
  "doc_call dry c w st = commit dry (batch_method w False (new_batch c)) st"

text \<open>
  \<^verbatim>\<open>CollectionReference.prototype.add\<close> under its wrapper (lines 98-102 and 68-70):
  the callback runs at once and marks the document; the original then creates the new
  document at the path \<open>r\<close> through a batch, whose wrapper finds the mark and queues
  nothing.
\<close>

definition add_call :: "bool \<Rightarrow> client \<Rightarrow> string \<Rightarrow> 'd \<Rightarrow> 'd run_state \<Rightarrow> 'd run_state" where
  "add_call dry c r d st =
     commit dry (batch_method (OpCreate r (UserDoc d)) (c = Given) (new_batch c))
       (if c = Given then add_fn d st else st)"

definition batch_call ::
  "bool \<Rightarrow> client \<Rightarrow> 'd doc op list \<Rightarrow> bool \<Rightarrow> 'd run_state \<Rightarrow> 'd run_state" where
  "batch_call dry c ws committed st =
     (let b = fold (\<lambda>w. batch_method w False) ws (new_batch c)
      in if committed then commit dry b st else st)"

fun exec_action :: "bool \<Rightarrow> 'd action \<Rightarrow> 'd run_state \<Rightarrow> 'd run_state" where
  "exec_action dry (DocCall c w) st = doc_call dry c (map_op UserDoc w) st"
| "exec_action dry (AddCall c r d) st = add_call dry c r d st"
| "exec_action dry (BatchCall c ws committed) st =
     batch_call dry c (map (map_op UserDoc) ws) committed st"

subsection \<open>The inputs of a run\<close>

text \<open>
  The options of \<^verbatim>\<open>migrate\<close> and what the run reads from its environment: the module
  to pre-load and whether loading it succeeds, the directory (resolved), whether it
  exists, its entries with their directory flag in the order \<^verbatim>\<open>readdir\<close> returns them,
  the coercion of version tokens, the three flags, whether the credentials, the clients
  and the history query are obtained, the result of \<^verbatim>\<open>require\<close> for each path (the error
  thrown, or what the loaded migration does in this run), the checksum of each file, the
  user name and the major version of the runtime.
\<close>

record 'd env =
  req :: "(string \<times> bool) option"
  dir :: string
  dir_exists :: bool
  entries :: "(string \<times> bool) list"
  coerce :: "string \<Rightarrow> version option"
  dryrun :: bool
  debug :: bool
  forceWait :: bool
  backend_ok :: bool
  scripts :: "string \<Rightarrow> string + 'd migration"
  file_md5 :: "string \<Rightarrow> string"
  username :: string
  node_major :: nat

text \<open>How an invocation ends: it returns the stats, throws, or never returns.\<close>

datatype outcome = Returned | Threw error | Blocked

definition console_log :: "'d env \<Rightarrow> 'd run_state \<Rightarrow> 'd line list" where
  "console_log e st = (if debug e then logged st else [])"

subsection \<open>The tracker (lines 106-203)\<close>

text \<open>
  \<^verbatim>\<open>handleCheck\<close> (lines 151-176): with open handles and \<^verbatim>\<open>forceWait\<close> the loop logs
  once and waits until every handle is deleted, which never happens when one of them never
  settles; without \<^verbatim>\<open>forceWait\<close> it warns (for a runtime of major version 12 or
  later) and goes on. The flag of the result says whether the check returns.
\<close>

definition handleCheck :: "'d env \<Rightarrow> 'd migration \<Rightarrow> 'd run_state \<Rightarrow> 'd run_state \<times> bool" where
  "handleCheck e m st =
     (if handles m = [] then (st, True)
      else if forceWait e
      then (log_call [Str ''Waiting for async calls to resolve''] st, list_all snd (handles m))
      else (if 12 \<le> node_major e
            then st\<lparr>stderr := stderr st @
                   [''WARNING: fireway detected open async calls. Use --forceWait if you want to wait:''
                    # map fst (handles m)]\<rparr>
            else st, True))"

text \<open>
  \<^verbatim>\<open>trackAsync\<close> applied to the callback of lines 375-386: the entry point runs, an
  exception it throws is logged and gives \<^verbatim>\<open>false\<close>; then the handle check, and a
  stored reason that is truthy (\<^verbatim>\<open>if (rejection)\<close>, line 192) is logged and gives
  \<^verbatim>\<open>false\<close>. The result is \<open>None\<close> when the call never returns.
\<close>

definition trackAsync ::
  "'d env \<Rightarrow> migration_file \<Rightarrow> 'd migration \<Rightarrow> 'd run_state \<Rightarrow> bool option \<times> 'd run_state" where
  "trackAsync e file m st =
     (let st1 = fold (exec_action (dryrun e)) (actions m) st;
          res = (throws m = None);
          st2 = (case throws m of
                   None \<Rightarrow> st1
                 | Some err \<Rightarrow> log_call [Str (''Error in '' @ filename file), Err err] st1);
          st3 = fst (handleCheck e m st2)
      in if \<not> snd (handleCheck e m st2) then (None, st3)
         else (case rejection m of
                 None \<Rightarrow> (Some res, st3)
               | Some reason \<Rightarrow>
                   (if truthy reason
                    then (Some False,
                          log_call [Str (''Error in '' @ filename file), Err (the reason)] st3)
                    else (Some res, st3))))"

subsection \<open>The orchestrator (lines 206-429)\<close>

text \<open>
  Line 395: the name of the history document. The rank is printed in decimal, as a
  template literal prints the integers up to \<open>2 ^ 53\<close> in magnitude; the shortened digits
  and the exponent it gives to greater numbers are not modelled.
\<close>

definition doc_id :: "int \<Rightarrow> migration_file \<Rightarrow> string" where
  "doc_id rank file =
     show_int rank @ ''-'' @ version_string (version file) @ ''-'' @ description file"

definition history_entry ::
  "'d env \<Rightarrow> int \<Rightarrow> migration_file \<Rightarrow> 'd migration \<Rightarrow> bool \<Rightarrow> history_record" where
  "history_entry e rank file m ok =
     \<lparr>version = version file,
      description = description file,
      installed_rank = rank,
      script = filename file,
      type = drop 1 (extname (filename file)),
      checksum = file_md5 e (path file),
      installed_by = username e,
      installed_on = start m,
      execution_time = int (finish m) - int (start m),
      success = ok\<rparr>"

definition set_frozen :: "bool \<Rightarrow> 'd run_state \<Rightarrow> 'd run_state" where
  "set_frozen b st = st\<lparr>stats := (stats st)\<lparr>frozen := b\<rparr>\<rparr>"

text \<open>
  Lines 388-410: freeze the stats, take the next rank, write the record through the
  client of the run, unfreeze.
\<close>

definition upload ::
  "'d env \<Rightarrow> int \<Rightarrow> migration_file \<Rightarrow> 'd migration \<Rightarrow> bool \<Rightarrow> 'd run_state \<Rightarrow> 'd run_state" where
  "upload e rank file m ok st =
     set_frozen False
       (doc_call (dryrun e) Given
          (OpSet (''fireway/'' @ doc_id rank file) (HistoryDoc (history_entry e rank file m ok)) False)
          (set_frozen True
             (log_call [Str (''Uploading the results for '' @ filename file)] st)))"

text \<open>Lines 363-364: count the file and log its name.\<close>

definition begin_file :: "migration_file \<Rightarrow> 'd run_state \<Rightarrow> 'd run_state" where
  "begin_file file st =
     log_call [Str ''Running'', Str (filename file)]
       (st\<lparr>stats := (stats st)\<lparr>executedFiles := executedFiles (stats st) + 1\<rparr>\<rparr>)"

text \<open>
  \<^verbatim>\<open>installed_rank += 1\<close> (line 394). The variable is a JavaScript number, a double:
  the sum is exact from \<open>- 2 ^ 53\<close> up to \<open>2 ^ 53 - 1\<close>; beyond, the doubles that are
  integers are even, and the odd sum is rounded to the neighbour whose mantissa is even up
  to \<open>2 ^ 54\<close> in magnitude, and to the number itself from there on. So
  \<open>2 ^ 53 = 9007199254740992\<close> is its own successor. (An odd integer beyond the exact
  range is no double, and never the value of the variable.)
\<close>

definition increment :: "int \<Rightarrow> int" where
  "increment rank =
     (if - (2 ^ 53) \<le> rank \<and> rank < 2 ^ 53 then rank + 1
      else if \<bar>rank\<bar> < 2 ^ 54 \<and> rank mod 4 = 2 then rank + 2
      else rank)"

text \<open>
  The loop of lines 362-415; the second argument is the variable \<^verbatim>\<open>installed_rank\<close>.
  The list \<open>executed\<close> grows when the module has loaded and its entry point is invoked.
\<close>

fun run_files ::
  "'d env \<Rightarrow> int \<Rightarrow> migration_file list \<Rightarrow> 'd run_state \<Rightarrow> outcome \<times> 'd run_state" where
  "run_files e rank [] st = (Returned, st)"
| "run_files e rank (file # files) st =
     (case scripts e (path file) of
        Inl err \<Rightarrow> (Threw (LoadFailed err), log_call [Err err] (begin_file file st))
      | Inr m \<Rightarrow>
          (let tracked = trackAsync e file m
                           ((begin_file file st)\<lparr>executed := executed st @ [file]\<rparr>)
           in case fst tracked of
                None \<Rightarrow> (Blocked, snd tracked)
              | Some ok \<Rightarrow>
                  (if \<not> ok
                   then (Threw StoppedAtFirstFailure,
                         upload e (increment rank) file m ok (snd tracked))
                   else run_files e (increment rank) files
                          (upload e (increment rank) file m ok (snd tracked)))))"

definition initial_stats :: run_stats where
  "initial_stats = \<lparr>scannedFiles = 0, executedFiles = 0, created = 0, set' = 0, updated = 0,
     deleted = 0, added = 0, frozen = False\<rparr>"

definition initial_state :: "(string \<times> history_record) list \<Rightarrow> 'd run_state" where
  "initial_state h = \<lparr>stats = initial_stats, logged = [], stderr = [], history = h, data = [],
     executed = []\<rparr>"

text \<open>Lines 356-429: sort, execute in order, and the final log lines.\<close>

definition execute ::
  "'d env \<Rightarrow> int \<Rightarrow> migration_file list \<Rightarrow> 'd run_state \<Rightarrow> outcome \<times> 'd run_state" where
  "execute e rank files st =
     (case run_files e rank (sort_key version files)
             (log_call [Str (''Executing '' @ show_nat (length files) @ '' migration files'')] st) of
        (Returned, st') \<Rightarrow>
          (Returned,
           log_call [Str (''Docs added:'' @ show_nat (added (stats st'))
                          @ '' created:'' @ show_nat (created (stats st'))
                          @ '' updated:'' @ show_nat (updated (stats st'))
                          @ '' set:'' @ show_nat (set' (stats st'))
                          @ '' deleted:'' @ show_nat (deleted (stats st')))]
             (log_call [Str (''Files scanned:'' @ show_nat (scannedFiles (stats st'))
                             @ '' executed:'' @ show_nat (executedFiles (stats st')))]
                (log_call [Str ''Finished all firestore migrations''] st')))
      | other \<Rightarrow> other)"

text \<open>Lines 239-244 and 246-282: the entries that are not directories, and their scan.\<close>

definition filenames :: "'d env \<Rightarrow> string list" where
  "filenames e = map fst (filter (\<lambda>entry. \<not> snd entry) (entries e))"

definition scan :: "'d env \<Rightarrow> string list \<times> (error + migration_file list)" where
  "scan e = parse_files (coerce e) (dir e) Map.empty (filenames e)"

text \<open>
  \<^verbatim>\<open>if (req)\<close> (line 207): the module to pre-load, when the option is truthy; an empty
  name is not loaded.
\<close>

definition required :: "'d env \<Rightarrow> (string \<times> bool) option" where
  "required e =
     (case req e of
        None \<Rightarrow> None
      | Some (module, ok) \<Rightarrow> if module = [] then None else Some (module, ok))"

text \<open>
  \<^verbatim>\<open>migrate\<close>, from the history collection \<open>h\<close> the run finds. The result is how the
  invocation ends and the state it leaves; when it returns, the stats of that state are the
  value returned.
\<close>

definition migrate :: "'d env \<Rightarrow> (string \<times> history_record) list \<Rightarrow> outcome \<times> 'd run_state" where
  "migrate e h =
     (case required e of
        Some (module, False) \<Rightarrow>
          (Threw (RequireFailed module),
           (initial_state h)\<lparr>stderr := [[''Trouble executing require'', module]]\<rparr>)
      | _ \<Rightarrow>
          if \<not> dir_exists e then (Threw (NoDirectory (dir e)), initial_state h)
          else
            (case scan e of
               (warnings, Inl err) \<Rightarrow>
                 (Threw err, (initial_state h)\<lparr>logged := map (\<lambda>w. [Str w]) warnings\<rparr>)
             | (warnings, Inr files) \<Rightarrow>
                 (let st1 = log_call
                              [Str (''Found '' @ show_nat (length files) @ '' migration files'')]
                              ((initial_state h)
                                 \<lparr>logged := map (\<lambda>w. [Str w]) warnings,
                                  stats := initial_stats\<lparr>scannedFiles := length files\<rparr>\<rparr>);
                      st2 = (if dryrun e then log_call [Str ''Making firestore read-only''] st1
                             else st1)
                  in if \<not> backend_ok e then (Threw BackendFailed, st2)
                     else
                       (case get_latest h of
                          None \<Rightarrow> execute e (- 1) files st2
                        | Some latest \<Rightarrow>
                            if \<not> success latest
                            then (Threw (PreviousFailed (version latest) (script latest)), st2)
                            else execute e (installed_rank latest)
                                   (filter (\<lambda>file. version latest < version file) files) st2))))"

subsection \<open>Summaries used in the statements\<close>

text \<open>
  What one action of a migration amounts to: the operations whose callback runs
  (\<open>counted\<close>), the lines it logs, the operations that reach the backend (\<open>sent\<close>), and
  its effect on the counters (\<open>tally\<close>). The lemmas below prove that the wrappers compute
  exactly these.
\<close>

fun counted :: "'d action \<Rightarrow> 'd doc op list" where
  "counted (DocCall c w) = (if c = Given then [map_op UserDoc w] else [])"
| "counted (AddCall c r d) = []"
| "counted (BatchCall c ws committed) =
     (if c = Given \<and> committed then map (map_op UserDoc) ws else [])"

fun lines :: "'d action \<Rightarrow> 'd line list" where
  "lines (AddCall c r d) = (if c = Given then [[Str ''Adding'', Json (UserDoc d)]] else [])"
| "lines a = map log_op (counted a)"

fun sent :: "bool \<Rightarrow> 'd action \<Rightarrow> 'd doc op list" where
  "sent dry (DocCall c w) = (if c = Given \<and> dry then [] else [map_op UserDoc w])"
| "sent dry (AddCall c r d) = (if c = Given \<and> dry then [] else [OpCreate r (UserDoc d)])"
| "sent dry (BatchCall c ws committed) =
     (if (c = Given \<and> dry) \<or> \<not> committed then [] else map (map_op UserDoc) ws)"

fun tally :: "'d action \<Rightarrow> run_stats \<Rightarrow> run_stats" where
  "tally (AddCall c r d) s = (if c = Given then s\<lparr>added := added s + 1\<rparr> else s)"
| "tally a s = fold count_op (counted a) s"

definition blocks :: "'d env \<Rightarrow> 'd migration \<Rightarrow> bool" where
  "blocks e m = (handles m \<noteq> [] \<and> forceWait e \<and> \<not> list_all snd (handles m))"

definition succeeds :: "'d migration \<Rightarrow> bool" where
  "succeeds m =
     (throws m = None \<and> (case rejection m of None \<Rightarrow> True | Some reason \<Rightarrow> \<not> truthy reason))"

definition invoke :: "'d env \<Rightarrow> migration_file \<Rightarrow> 'd migration \<Rightarrow> 'd run_state \<Rightarrow> 'd run_state" where
  "invoke e f m st = snd (trackAsync e f m ((begin_file f st)\<lparr>executed := executed st @ [f]\<rparr>))"

definition preloaded :: "'d env \<Rightarrow> bool" where
  "preloaded e = (case required e of None \<Rightarrow> True | Some (module, ok) \<Rightarrow> ok)"

definition candidates :: "'d env \<Rightarrow> migration_file list" where
  "candidates e = (case snd (scan e) of Inl err \<Rightarrow> [] | Inr files \<Rightarrow> files)"

definition scan_ok :: "'d env \<Rightarrow> bool" where
  "scan_ok e = (case snd (scan e) of Inl err \<Rightarrow> False | Inr files \<Rightarrow> True)"

definition ready :: "'d env \<Rightarrow> bool" where
  "ready e = (preloaded e \<and> dir_exists e \<and> scan_ok e \<and> backend_ok e)"

definition unlocked :: "(string \<times> history_record) list \<Rightarrow> bool" where
  "unlocked h = (case get_latest h of None \<Rightarrow> True | Some latest \<Rightarrow> success latest)"

definition base_rank :: "(string \<times> history_record) list \<Rightarrow> int" where
  "base_rank h = (case get_latest h of None \<Rightarrow> - 1 | Some latest \<Rightarrow> installed_rank latest)"

definition after_latest :: "(string \<times> history_record) list \<Rightarrow> migration_file \<Rightarrow> bool" where
  "after_latest h file = (case get_latest h of None \<Rightarrow> True | Some latest \<Rightarrow> version latest < version file)"

definition pending :: "'d env \<Rightarrow> (string \<times> history_record) list \<Rightarrow> migration_file list" where
  "pending e h = (if ready e \<and> unlocked h then sort_key version (filter (after_latest h) (candidates e)) else [])"

definition scanned_state :: "'d env \<Rightarrow> (string \<times> history_record) list \<Rightarrow> 'd run_state" where
  "scanned_state e h =
     (let st1 = log_call [Str (''Found '' @ show_nat (length (candidates e)) @ '' migration files'')]
                  ((initial_state h)\<lparr>logged := map (\<lambda>w. [Str w]) (fst (scan e)),
                      stats := initial_stats\<lparr>scannedFiles := length (candidates e)\<rparr>\<rparr>)
      in log_call [Str (''Executing '' @ show_nat (length (pending e h)) @ '' migration files'')]
           (if dryrun e then log_call [Str ''Making firestore read-only''] st1 else st1))"

definition found_state :: "'d env \<Rightarrow> (string \<times> history_record) list \<Rightarrow> 'd run_state" where
  "found_state e h =
     (let st1 = log_call [Str (''Found '' @ show_nat (length (candidates e)) @ '' migration files'')]
                  ((initial_state h)\<lparr>logged := map (\<lambda>w. [Str w]) (fst (scan e)),
                      stats := initial_stats\<lparr>scannedFiles := length (candidates e)\<rparr>\<rparr>)
      in if dryrun e then log_call [Str ''Making firestore read-only''] st1 else st1)"

definition token :: "string \<Rightarrow> string" where
  "token name = hd (split_sep [] name)"

definition described :: "string \<Rightarrow> bool" where
  "described name = truthy (description_of (split_sep [] name))"

definition is_candidate :: "(string \<Rightarrow> version option) \<Rightarrow> string \<Rightarrow> bool" where
  "is_candidate co name = (take 1 name \<noteq> ''.'' \<and> co (token name) \<noteq> None \<and> described name)"

definition malformed :: "(string \<Rightarrow> version option) \<Rightarrow> string \<Rightarrow> bool" where
  "malformed co name = (take 1 name \<noteq> ''.'' \<and> co (token name) \<noteq> None \<and> \<not> described name)"

definition file_of :: "(string \<Rightarrow> version option) \<Rightarrow> string \<Rightarrow> string \<Rightarrow> migration_file" where
  "file_of co d name =
     \<lparr>version = the (co (token name)),
      description = basename (the (description_of (split_sep [] name)))
                      (extname (the (description_of (split_sep [] name)))),
      filename = name,
      path = path_join d name\<rparr>"

definition names_only :: "(version \<rightharpoonup> string) \<Rightarrow> bool" where
  "names_only versionToFile = (\<forall>v. versionToFile v \<noteq> Some [])"


fun join_sep :: "string list \<Rightarrow> string" where
  "join_sep [] = []"
| "join_sep [p] = p"
| "join_sep (p # q # ps) = p @ ''__'' @ join_sep (q # ps)"

definition record_key :: "history_record \<Rightarrow> string" where
  "record_key r =
     ''fireway/'' @ show_int (installed_rank r) @ ''-'' @ version_string (version r) @ ''-''
       @ description r"

definition append_records ::
  "history_record list \<Rightarrow> (string \<times> history_record) list \<Rightarrow> (string \<times> history_record) list" where
  "append_records recs h = fold (\<lambda>r. put_doc (record_key r) r) recs h"

definition consecutive_from :: "int \<Rightarrow> history_record list \<Rightarrow> bool" where
  "consecutive_from b recs = (map installed_rank recs = map (\<lambda>i. b + int i) [0..<length recs])"

text \<open>
  \<open>ranked_from rank recs\<close>: the ranks of the records are the successive values of the
  variable \<^verbatim>\<open>installed_rank\<close> started at \<open>rank\<close>. \<open>exact_ranks rank n\<close>: \<open>n\<close>
  increments from \<open>rank\<close> stay in the range where each adds exactly one.
  \<open>history_writes\<close>: the history records handed to the wrapper of \<^verbatim>\<open>set\<close> (it logs
  each document it is called with, lines 83-86 and 36-39), that is, the writes of a record
  issued on the run's client, in order, whether or not the commit then sent them.
\<close>

fun ranked_from :: "int \<Rightarrow> history_record list \<Rightarrow> bool" where
  "ranked_from rank [] = True"
| "ranked_from rank (r # recs) =
     (installed_rank r = increment rank \<and> ranked_from (increment rank) recs)"

definition exact_ranks :: "int \<Rightarrow> nat \<Rightarrow> bool" where
  "exact_ranks rank n = (- (2 ^ 53) \<le> rank \<and> rank + int n \<le> 2 ^ 53)"

fun record_of :: "'d log_arg \<Rightarrow> history_record list" where
  "record_of (Json (HistoryDoc r)) = [r]"
| "record_of a = []"

definition history_writes :: "'d run_state \<Rightarrow> history_record list" where
  "history_writes st = concat (map (\<lambda>l. concat (map record_of l)) (logged st))"

definition engine_history :: "(string \<times> history_record) list \<Rightarrow> bool" where
  "engine_history h =
     (map (\<lambda>entry. installed_rank (snd entry)) h = map int [0..<length h]
      \<and> list_all (\<lambda>entry. fst entry = record_key (snd entry)) h)"

fun client_of :: "'d action \<Rightarrow> client" where
  "client_of (DocCall c w) = c"
| "client_of (AddCall c r d) = c"
| "client_of (BatchCall c ws committed) = c"

definition script_tally :: "'d env \<Rightarrow> migration_file \<Rightarrow> run_stats \<Rightarrow> run_stats" where
  "script_tally e f s =
     (case scripts e (path f) of Inl err \<Rightarrow> s | Inr m \<Rightarrow> fold tally (actions m) s)"

subsection \<open>Concrete runs\<close>

text \<open>
  A directory and its scripts, used to evaluate the model: \<^verbatim>\<open>v1__first.js\<close> performs
  one create, two sets (one merging), one update, one delete and one add on the client it
  is given; \<^verbatim>\<open>1.1__b.js\<close> commits a batch of two operations and leaves a second batch
  uncommitted; \<^verbatim>\<open>1.2.0__c.js\<close> writes one document. The listing is not in version
  order and holds a subdirectory, a hidden file and a file that is no migration.
\<close>

definition first_script :: "nat migration" where
  "first_script =
     \<lparr>actions = [DocCall Given (OpCreate ''users/a'' 1),
                 DocCall Given (OpSet ''users/b'' 2 False),
                 DocCall Given (OpSet ''users/b'' 3 True),
                 DocCall Given (OpUpdate ''users/a'' 4),
                 DocCall Given (OpDelete ''users/b''),
                 AddCall Given ''users/auto1'' 5],
      throws = None, rejection = None, handles = [], start = 100, finish = 140\<rparr>"

definition batch_script :: "nat migration" where
  "batch_script =
     \<lparr>actions = [BatchCall Given [OpSet ''users/c'' 6 False, OpDelete ''users/a''] True,
                 BatchCall Given [OpCreate ''users/d'' 7] False],
      throws = None, rejection = None, handles = [], start = 200, finish = 210\<rparr>"

definition small_script :: "nat migration" where
  "small_script =
     \<lparr>actions = [DocCall Given (OpSet ''users/e'' 8 False)],
      throws = None, rejection = None, handles = [], start = 300, finish = 301\<rparr>"

definition demo_scripts :: "string \<Rightarrow> string + nat migration" where
  "demo_scripts p =
     (if p = ''/m/v1__first.js'' then Inr first_script
      else if p = ''/m/1.1__b.js'' then Inr batch_script
      else if p = ''/m/1.2.0__c.js'' then Inr small_script
      else Inl ''Cannot find module'')"

definition demo_env :: "nat env" where
  "demo_env =
     \<lparr>req = None, dir = ''/m'', dir_exists = True,
      entries = [(''1.2.0__c.js'', False), (''archive'', True), (''v1__first.js'', False),
                 (''.keep'', False), (''1.1__b.js'', False), (''README.md'', False)],
      coerce = semver_coerce, dryrun = False, debug = True, forceWait = False,
      backend_ok = True, scripts = demo_scripts, file_md5 = (\<lambda>p. ''d41d8cd9''),
      username = ''ci'', node_major = 16\<rparr>"

text \<open>A history whose latest record is marked failed.\<close>

definition failed_record :: history_record where
  "failed_record =
     \<lparr>version = (1, 0, 0), description = ''first'', installed_rank = 0,
      script = ''v1__first.js'', type = ''js'', checksum = ''d41d8cd9'', installed_by = ''ci'',
      installed_on = 100, execution_time = 40, success = False\<rparr>"

definition locked_history :: "(string \<times> history_record) list" where
  "locked_history = [(''fireway/0-1.0.0-first'', failed_record)]"

text \<open>The same environment over a directory that holds the given files and nothing else.\<close>

definition listing_env :: "string list \<Rightarrow> nat env" where
  "listing_env names = demo_env\<lparr>entries := map (\<lambda>name. (name, False)) names\<rparr>"

text \<open>
  The same directory when the entry point of \<^verbatim>\<open>v1__first.js\<close> throws after its writes,
  and a history whose only record, of an older version, is marked successful.
\<close>

definition failing_scripts :: "string \<Rightarrow> string + nat migration" where
  "failing_scripts p =
     (if p = ''/m/v1__first.js'' then Inr (first_script\<lparr>throws := Some ''boom''\<rparr>)
      else demo_scripts p)"

definition failing_env :: "nat env" where
  "failing_env = demo_env\<lparr>scripts := failing_scripts\<rparr>"

definition old_record :: history_record where
  "old_record =
     \<lparr>version = (0, 9, 0), description = ''init'', installed_rank = 0,
      script = ''0.9__init.js'', type = ''js'', checksum = ''d41d8cd9'', installed_by = ''ci'',
      installed_on = 50, execution_time = 5, success = True\<rparr>"


definition dry_failing_env :: "nat env" where
  "dry_failing_env = failing_env\<lparr>dryrun := True\<rparr>"

definition dry_env :: "nat env" where
  "dry_env = demo_env\<lparr>dryrun := True\<rparr>"

text \<open>A dry run over a directory that holds \<^verbatim>\<open>1.1__b.js\<close> only.\<close>

definition dry_batch_env :: "nat env" where
  "dry_batch_env = (listing_env [''1.1__b.js''])\<lparr>dryrun := True\<rparr>"

text \<open>
  A history whose only record, of an older version and successful, has the rank
  \<open>2 ^ 53 = 9007199254740992\<close>.
\<close>

definition far_record :: history_record where
  "far_record = old_record\<lparr>installed_rank := 9007199254740992\<rparr>"

definition far_history :: "(string \<times> history_record) list" where
  "far_history = [(''fireway/9007199254740992-0.9.0-init'', far_record)]"

text \<open>
  The directory of \<open>demo_env\<close> when the entry point of \<^verbatim>\<open>v1__first.js\<close> returns and
  leaves a promise rejected with the reason \<^verbatim>\<open>boom\<close>, or with no reason at all.
\<close>

definition rejecting_scripts :: "string option \<Rightarrow> string \<Rightarrow> string + nat migration" where
  "rejecting_scripts reason p =
     (if p = ''/m/v1__first.js'' then Inr (first_script\<lparr>rejection := Some reason\<rparr>)
      else demo_scripts p)"

definition rejecting_env :: "string option \<Rightarrow> nat env" where
  "rejecting_env reason = demo_env\<lparr>scripts := rejecting_scripts reason\<rparr>"

section \<open>Properties\<close>

subsection \<open>The effect of each step on the state\<close>

lemma log_call_fields [simp]:
  "stats (log_call l st) = stats st"
  "logged (log_call l st) = logged st @ [l]"
  "stderr (log_call l st) = stderr st"
  "history (log_call l st) = history st"
  "data (log_call l st) = data st"
  "executed (log_call l st) = executed st"
  by (simp_all add: log_call_def)

lemma set_frozen_fields [simp]:
  "stats (set_frozen b st) = (stats st)\<lparr>frozen := b\<rparr>"
  "logged (set_frozen b st) = logged st"
  "stderr (set_frozen b st) = stderr st"
  "history (set_frozen b st) = history st"
  "data (set_frozen b st) = data st"
  "executed (set_frozen b st) = executed st"
  by (simp_all add: set_frozen_def)

lemma count_op_frozen [simp]: "frozen (count_op w s) = frozen s"
  by (cases w) simp_all

lemma count_op_files [simp]:
  "scannedFiles (count_op w s) = scannedFiles s"
  "executedFiles (count_op w s) = executedFiles s"
  "added (count_op w s) = added s"
  by (cases w; simp)+

lemma fn_call_fields [simp]:
  "stats (fn_call w st) = (if frozen (stats st) then stats st else count_op w (stats st))"
  "logged (fn_call w st) = logged st @ [log_op w]"
  "stderr (fn_call w st) = stderr st"
  "history (fn_call w st) = history st"
  "data (fn_call w st) = data st"
  "executed (fn_call w st) = executed st"
  by (simp_all add: fn_call_def)

lemma add_fn_fields [simp]:
  "stats (add_fn d st) = (if frozen (stats st) then stats st else (stats st)\<lparr>added := added (stats st) + 1\<rparr>)"
  "logged (add_fn d st) = logged st @ [[Str ''Adding'', Json (UserDoc d)]]"
  "stderr (add_fn d st) = stderr st"
  "history (add_fn d st) = history st"
  "data (add_fn d st) = data st"
  "executed (add_fn d st) = executed st"
  by (simp_all add: add_fn_def)

lemma fold_fn_call_fields [simp]:
  "stderr (fold fn_call ws st) = stderr st"
  "history (fold fn_call ws st) = history st"
  "data (fold fn_call ws st) = data st"
  "executed (fold fn_call ws st) = executed st"
  "logged (fold fn_call ws st) = logged st @ map log_op ws"
  "frozen (stats (fold fn_call ws st)) = frozen (stats st)"
  by (induction ws arbitrary: st; simp)+

lemma fold_fn_call_stats:
  "stats (fold fn_call ws st) = (if frozen (stats st) then stats st else fold count_op ws (stats st))"
  by (induction ws arbitrary: st) simp_all

lemma apply_write_fields [simp]:
  "stats (apply_write w st) = stats st"
  "logged (apply_write w st) = logged st"
  "stderr (apply_write w st) = stderr st"
  "executed (apply_write w st) = executed st"
  by (cases "(w, st)" rule: apply_write.cases; simp)+

lemma ogCommit_fields [simp]:
  "stats (ogCommit ws st) = stats st"
  "logged (ogCommit ws st) = logged st"
  "stderr (ogCommit ws st) = stderr st"
  "executed (ogCommit ws st) = executed st"
  unfolding ogCommit_def by (induction ws arbitrary: st; simp)+

lemma apply_write_user [simp]:
  "history (apply_write (map_op UserDoc w) st) = history st"
  "data (apply_write (map_op UserDoc w) st) = data st @ [map_op UserDoc w]"
  by (cases w; simp)+

lemma ogCommit_user [simp]:
  "history (ogCommit (map (map_op UserDoc) ws) st) = history st"
  "data (ogCommit (map (map_op UserDoc) ws) st) = data st @ map (map_op UserDoc) ws"
  unfolding ogCommit_def by (induction ws arbitrary: st; simp)+

lemma fold_batch_method:
  "fold (\<lambda>w. batch_method w False) ws b =
     b\<lparr>fireway_queue := fireway_queue b @ (if claimed b then ws else []), ops := ops b @ ws\<rparr>"
  by (induction ws arbitrary: b) (simp_all add: batch_method_def Let_def)

lemma commit_fields [simp]:
  "stats (commit dry b st) = stats (fold fn_call (fireway_queue b) st)"
  "logged (commit dry b st) = logged st @ map log_op (fireway_queue b)"
  "stderr (commit dry b st) = stderr st"
  "executed (commit dry b st) = executed st"
  by (simp_all add: commit_def Let_def)

lemma commit_user:
  assumes "ops b = map (map_op UserDoc) ws"
  shows "history (commit dry b st) = history st"
    and "data (commit dry b st) = data st @ (if claimed b \<and> dry then [] else ops b)"
  using assms by (simp_all add: commit_def Let_def)

lemma batch_of_one:
  "batch_method w False (new_batch c) =
     \<lparr>claimed = (c = Given), fireway_queue = (if c = Given then [w] else []), ops = [w]\<rparr>"
  by (simp add: batch_method_def new_batch_def Let_def)

lemma batch_marked:
  "batch_method (OpCreate r d) (c = Given) (new_batch c) =
     \<lparr>claimed = (c = Given), fireway_queue = [], ops = [OpCreate r d]\<rparr>"
  by (simp add: batch_method_def new_batch_def Let_def)

lemma batch_of_many:
  "fold (\<lambda>w. batch_method w False) ws (new_batch c) =
     \<lparr>claimed = (c = Given), fireway_queue = (if c = Given then ws else []), ops = ws\<rparr>"
  by (simp add: fold_batch_method new_batch_def)

lemma doc_call_user:
  "stats (doc_call dry c (map_op UserDoc u) st) =
     (if c = Given \<and> \<not> frozen (stats st) then count_op (map_op UserDoc u) (stats st) else stats st)"
  "logged (doc_call dry c (map_op UserDoc u) st) =
     logged st @ (if c = Given then [log_op (map_op UserDoc u)] else [])"
  "stderr (doc_call dry c w st) = stderr st"
  "executed (doc_call dry c w st) = executed st"
  "history (doc_call dry c (map_op UserDoc u) st) = history st"
  "data (doc_call dry c (map_op UserDoc u) st) =
     data st @ (if c = Given \<and> dry then [] else [map_op UserDoc u])"
  by (simp_all add: doc_call_def batch_of_one commit_user[where ws = "[u]"])

lemma add_call_fields:
  "stats (add_call dry c r d st) =
     (if c = Given \<and> \<not> frozen (stats st) then (stats st)\<lparr>added := added (stats st) + 1\<rparr> else stats st)"
  "logged (add_call dry c r d st) =
     logged st @ (if c = Given then [[Str ''Adding'', Json (UserDoc d)]] else [])"
  "stderr (add_call dry c r d st) = stderr st"
  "executed (add_call dry c r d st) = executed st"
  "history (add_call dry c r d st) = history st"
  "data (add_call dry c r d st) =
     data st @ (if c = Given \<and> dry then [] else [OpCreate r (UserDoc d)])"
  by (simp_all add: add_call_def batch_marked commit_user[where ws = "[OpCreate r d]"])

lemma batch_call_fields:
  "stats (batch_call dry c (map (map_op UserDoc) us) committed st) =
     (if c = Given \<and> committed \<and> \<not> frozen (stats st)
      then fold count_op (map (map_op UserDoc) us) (stats st) else stats st)"
  "logged (batch_call dry c (map (map_op UserDoc) us) committed st) =
     logged st @ (if c = Given \<and> committed then map log_op (map (map_op UserDoc) us) else [])"
  "stderr (batch_call dry c ws committed st) = stderr st"
  "executed (batch_call dry c ws committed st) = executed st"
  "history (batch_call dry c (map (map_op UserDoc) us) committed st) = history st"
  "data (batch_call dry c (map (map_op UserDoc) us) committed st) =
     data st @ (if (c = Given \<and> dry) \<or> \<not> committed then [] else map (map_op UserDoc) us)"
  by (simp_all add: batch_call_def batch_of_many commit_user[where ws = us] fold_fn_call_stats)

lemma exec_action_frame [simp]:
  "stderr (exec_action dry a st) = stderr st"
  "history (exec_action dry a st) = history st"
  "executed (exec_action dry a st) = executed st"
  by (cases a; simp add: doc_call_user add_call_fields batch_call_fields)+

lemma exec_action_data: "data (exec_action dry a st) = data st @ sent dry a"
  by (cases a) (simp_all add: doc_call_user add_call_fields batch_call_fields)

lemma exec_action_logged: "logged (exec_action dry a st) = logged st @ lines a"
  by (cases a) (simp_all add: doc_call_user add_call_fields batch_call_fields)

lemma exec_action_stats:
  "stats (exec_action dry a st) = (if frozen (stats st) then stats st else tally a (stats st))"
  by (cases a) (simp_all add: doc_call_user add_call_fields batch_call_fields)

lemma fold_count_op_frozen [simp]: "frozen (fold count_op ws s) = frozen s"
  by (induction ws arbitrary: s) simp_all

lemma tally_frozen [simp]: "frozen (tally a s) = frozen s"
  by (cases a) simp_all

lemma fold_exec_frame [simp]:
  "stderr (fold (exec_action dry) as st) = stderr st"
  "history (fold (exec_action dry) as st) = history st"
  "executed (fold (exec_action dry) as st) = executed st"
  by (induction as arbitrary: st; simp)+

lemma fold_exec_data:
  "data (fold (exec_action dry) as st) = data st @ concat (map (sent dry) as)"
  by (induction as arbitrary: st) (simp_all add: exec_action_data)

lemma fold_exec_logged:
  "logged (fold (exec_action dry) as st) = logged st @ concat (map lines as)"
  by (induction as arbitrary: st) (simp_all add: exec_action_logged)

lemma fold_exec_stats:
  "stats (fold (exec_action dry) as st) =
     (if frozen (stats st) then stats st else fold tally as (stats st))"
  by (induction as arbitrary: st) (simp_all add: exec_action_stats)

lemma handleCheck_frame [simp]:
  "stats (fst (handleCheck e m st)) = stats st"
  "history (fst (handleCheck e m st)) = history st"
  "data (fst (handleCheck e m st)) = data st"
  "executed (fst (handleCheck e m st)) = executed st"
  by (simp_all add: handleCheck_def)

lemma handleCheck_returns: "snd (handleCheck e m st) = (\<not> blocks e m)"
  by (simp add: handleCheck_def blocks_def)

lemma trackAsync_result:
  "fst (trackAsync e f m st) =
     (if blocks e m then None
      else Some (throws m = None
                 \<and> (case rejection m of None \<Rightarrow> True | Some reason \<Rightarrow> \<not> truthy reason)))"
  by (simp add: trackAsync_def Let_def handleCheck_returns split: option.splits)

lemma trackAsync_frame:
  "stats (snd (trackAsync e f m st)) = stats (fold (exec_action (dryrun e)) (actions m) st)"
  "history (snd (trackAsync e f m st)) = history st"
  "executed (snd (trackAsync e f m st)) = executed st"
  "data (snd (trackAsync e f m st)) = data st @ concat (map (sent (dryrun e)) (actions m))"
  by (simp_all add: trackAsync_def Let_def fold_exec_data split: option.splits)

lemma doc_call_history:
  "stats (doc_call dry Given (OpSet r (HistoryDoc rec) mg) st) =
     (if frozen (stats st) then stats st else (stats st)\<lparr>set' := set' (stats st) + 1\<rparr>)"
  "history (doc_call dry Given (OpSet r (HistoryDoc rec) mg) st) =
     (if dry then history st else put_doc r rec (history st))"
  "data (doc_call dry Given (OpSet r (HistoryDoc rec) mg) st) = data st"
  by (simp_all add: doc_call_def batch_of_one commit_def Let_def ogCommit_def)

lemma upload_fields:
  "stats (upload e rank f m ok st) = (stats st)\<lparr>frozen := False\<rparr>"
  "history (upload e rank f m ok st) =
     (if dryrun e then history st
      else put_doc (''fireway/'' @ doc_id rank f) (history_entry e rank f m ok) (history st))"
  "data (upload e rank f m ok st) = data st"
  "executed (upload e rank f m ok st) = executed st"
  by (simp_all add: upload_def doc_call_history doc_call_user(4))

lemma begin_file_fields [simp]:
  "stats (begin_file f st) = (stats st)\<lparr>executedFiles := executedFiles (stats st) + 1\<rparr>"
  "history (begin_file f st) = history st"
  "data (begin_file f st) = data st"
  "executed (begin_file f st) = executed st"
  by (simp_all add: begin_file_def)

lemma trackAsync_fst:
  "fst (trackAsync e f m st) = (if blocks e m then None else Some (succeeds m))"
  by (simp add: trackAsync_result succeeds_def)

lemma run_files_load_failed:
  "scripts e (path f) = Inl err \<Longrightarrow>
     run_files e rank (f # fs) st = (Threw (LoadFailed err), log_call [Err err] (begin_file f st))"
  by simp

lemma run_files_blocked:
  "scripts e (path f) = Inr m \<Longrightarrow> blocks e m \<Longrightarrow>
     run_files e rank (f # fs) st = (Blocked, invoke e f m st)"
  by (simp add: Let_def trackAsync_fst invoke_def)

lemma run_files_failed:
  "scripts e (path f) = Inr m \<Longrightarrow> \<not> blocks e m \<Longrightarrow> \<not> succeeds m \<Longrightarrow>
     run_files e rank (f # fs) st =
       (Threw StoppedAtFirstFailure, upload e (increment rank) f m False (invoke e f m st))"
  by (simp add: Let_def trackAsync_fst invoke_def)

lemma run_files_next:
  "scripts e (path f) = Inr m \<Longrightarrow> \<not> blocks e m \<Longrightarrow> succeeds m \<Longrightarrow>
     run_files e rank (f # fs) st =
       run_files e (increment rank) fs (upload e (increment rank) f m True (invoke e f m st))"
  by (simp add: Let_def trackAsync_fst invoke_def)

lemma invoke_fields:
  "history (invoke e f m st) = history st"
  "executed (invoke e f m st) = executed st @ [f]"
  "data (invoke e f m st) = data st @ concat (map (sent (dryrun e)) (actions m))"
  "stats (invoke e f m st) =
     (if frozen (stats st) then (stats st)\<lparr>executedFiles := executedFiles (stats st) + 1\<rparr>
      else fold tally (actions m) ((stats st)\<lparr>executedFiles := executedFiles (stats st) + 1\<rparr>))"
  by (simp_all add: invoke_def trackAsync_frame fold_exec_stats)

lemmas run_files_steps = run_files_load_failed run_files_blocked run_files_failed run_files_next

declare run_files.simps(2) [simp del]

lemma run_files_cases:
  obtains (load_failed) err where "scripts e (path f) = Inl err"
  | (blocked) m where "scripts e (path f) = Inr m" "blocks e m"
  | (failed) m where "scripts e (path f) = Inr m" "\<not> blocks e m" "\<not> succeeds m"
  | (passed) m where "scripts e (path f) = Inr m" "\<not> blocks e m" "succeeds m"
  by (cases "scripts e (path f)") auto

lemma history_dry_loop:
  "dryrun e \<Longrightarrow> history (snd (run_files e rank fs st)) = history st"
proof (induction fs arbitrary: rank st)
  case Nil
  then show ?case by simp
next
  case (Cons f fs)
  show ?case
    by (cases rule: run_files_cases[of e f])
       (simp_all add: run_files_steps Cons invoke_fields upload_fields)
qed

lemma executed_loop:
  "\<exists>n. executed (snd (run_files e rank fs st)) = executed st @ take n fs"
proof (induction fs arbitrary: rank st)
  case Nil
  then show ?case by simp
next
  case (Cons f fs)
  show ?case
  proof (cases rule: run_files_cases[of e f])
    case (load_failed err)
    then have "executed (snd (run_files e rank (f # fs) st)) = executed st @ take 0 (f # fs)"
      by (simp add: run_files_steps)
    then show ?thesis by blast
  next
    case (blocked m)
    then have "executed (snd (run_files e rank (f # fs) st)) = executed st @ take 1 (f # fs)"
      by (simp add: run_files_steps invoke_fields)
    then show ?thesis by blast
  next
    case (failed m)
    then have "executed (snd (run_files e rank (f # fs) st)) = executed st @ take 1 (f # fs)"
      by (simp add: run_files_steps invoke_fields upload_fields)
    then show ?thesis by blast
  next
    case (passed m)
    let ?up = "upload e (increment rank) f m True (invoke e f m st)"
    obtain n where "executed (snd (run_files e (increment rank) fs ?up)) = executed ?up @ take n fs"
      using Cons.IH by blast
    with passed have "executed (snd (run_files e rank (f # fs) st)) = executed st @ take (Suc n) (f # fs)"
      by (simp add: run_files_steps invoke_fields upload_fields)
    then show ?thesis by blast
  qed
qed


lemma execute_fields:
  "fst (execute e rank fs st) = fst (run_files e rank (sort_key version fs)
      (log_call [Str (''Executing '' @ show_nat (length fs) @ '' migration files'')] st))"
  "stats (snd (execute e rank fs st)) = stats (snd (run_files e rank (sort_key version fs)
      (log_call [Str (''Executing '' @ show_nat (length fs) @ '' migration files'')] st)))"
  "history (snd (execute e rank fs st)) = history (snd (run_files e rank (sort_key version fs)
      (log_call [Str (''Executing '' @ show_nat (length fs) @ '' migration files'')] st)))"
  "data (snd (execute e rank fs st)) = data (snd (run_files e rank (sort_key version fs)
      (log_call [Str (''Executing '' @ show_nat (length fs) @ '' migration files'')] st)))"
  "executed (snd (execute e rank fs st)) = executed (snd (run_files e rank (sort_key version fs)
      (log_call [Str (''Executing '' @ show_nat (length fs) @ '' migration files'')] st)))"
  by (simp_all add: execute_def split: prod.splits outcome.splits)

lemma initial_state_fields [simp]:
  "stats (initial_state h) = initial_stats"
  "history (initial_state h) = h"
  "data (initial_state h) = []"
  "executed (initial_state h) = []"
  "logged (initial_state h) = []"
  by (simp_all add: initial_state_def)

lemma scanned_state_fields [simp]:
  "stats (scanned_state e h) = initial_stats\<lparr>scannedFiles := length (candidates e)\<rparr>"
  "history (scanned_state e h) = h"
  "data (scanned_state e h) = []"
  "executed (scanned_state e h) = []"
  by (simp_all add: scanned_state_def Let_def)

lemma required_None [simp]: "req e = None \<Longrightarrow> required e = None"
  by (simp add: required_def)

lemma preloaded_cases:
  "preloaded e \<Longrightarrow> required e = None \<or> (\<exists>module. required e = Some (module, True))"
  by (auto simp: preloaded_def split: option.splits)

lemma migrate_require_failed:
  "\<not> preloaded e \<Longrightarrow>
     \<exists>module. migrate e h = (Threw (RequireFailed module),
        (initial_state h)\<lparr>stderr := [[''Trouble executing require'', module]]\<rparr>)"
  by (cases "required e") (auto simp: preloaded_def migrate_def)

lemma migrate_no_directory:
  "preloaded e \<Longrightarrow> \<not> dir_exists e \<Longrightarrow> migrate e h = (Threw (NoDirectory (dir e)), initial_state h)"
  using preloaded_cases[of e] by (auto simp: migrate_def)

lemma migrate_scan_error:
  "preloaded e \<Longrightarrow> dir_exists e \<Longrightarrow> snd (scan e) = Inl err \<Longrightarrow>
     migrate e h = (Threw err, (initial_state h)\<lparr>logged := map (\<lambda>w. [Str w]) (fst (scan e))\<rparr>)"
  using preloaded_cases[of e] by (cases "scan e") (auto simp: migrate_def)

lemma migrate_backend_failed:
  "preloaded e \<Longrightarrow> dir_exists e \<Longrightarrow> scan_ok e \<Longrightarrow> \<not> backend_ok e \<Longrightarrow>
     migrate e h = (Threw BackendFailed, found_state e h)"
  using preloaded_cases[of e]
  by (cases "scan e"; cases "snd (scan e)")
     (auto simp: migrate_def scan_ok_def found_state_def candidates_def Let_def)

lemma migrate_previous_failed:
  "ready e \<Longrightarrow> get_latest h = Some latest \<Longrightarrow> \<not> success latest \<Longrightarrow>
     migrate e h = (Threw (PreviousFailed (version latest) (script latest)), found_state e h)"
  using preloaded_cases[of e]
  by (cases "scan e"; cases "snd (scan e)")
     (auto simp: migrate_def ready_def scan_ok_def found_state_def candidates_def Let_def)

lemma found_state_fields [simp]:
  "stats (found_state e h) = initial_stats\<lparr>scannedFiles := length (candidates e)\<rparr>"
  "history (found_state e h) = h"
  "data (found_state e h) = []"
  "executed (found_state e h) = []"
  by (simp_all add: found_state_def Let_def)

lemma not_ready_cases:
  assumes "\<not> ready e"
  obtains (require) module where "migrate e h = (Threw (RequireFailed module),
        (initial_state h)\<lparr>stderr := [[''Trouble executing require'', module]]\<rparr>)"
  | (directory) "migrate e h = (Threw (NoDirectory (dir e)), initial_state h)"
  | (scan) err where "snd (scan e) = Inl err"
      "migrate e h = (Threw err, (initial_state h)\<lparr>logged := map (\<lambda>w. [Str w]) (fst (scan e))\<rparr>)"
  | (backend) "migrate e h = (Threw BackendFailed, found_state e h)"
proof (cases "preloaded e")
  case False
  then show ?thesis using migrate_require_failed[of e h] require by blast
next
  case p: True
  show ?thesis
  proof (cases "dir_exists e")
    case False
    then show ?thesis using migrate_no_directory[OF p, of h] directory by blast
  next
    case d: True
    show ?thesis
    proof (cases "snd (scan e)")
      case (Inl err)
      then show ?thesis using migrate_scan_error[OF p d, of err h] scan by blast
    next
      case (Inr files)
      then have "scan_ok e" by (simp add: scan_ok_def)
      moreover from this have "\<not> backend_ok e" using assms p d by (simp add: ready_def)
      ultimately show ?thesis using migrate_backend_failed[OF p d, of h] backend by blast
    qed
  qed
qed

lemma migrate_not_ready:
  assumes "\<not> ready e"
  shows "\<exists>err. fst (migrate e h) = Threw err"
    and "executed (snd (migrate e h)) = []"
    and "history (snd (migrate e h)) = h"
    and "data (snd (migrate e h)) = []"
    and "executedFiles (stats (snd (migrate e h))) = 0"
    and "\<exists>n. stats (snd (migrate e h)) = initial_stats\<lparr>scannedFiles := n\<rparr>"
proof -
  have z: "initial_stats = initial_stats\<lparr>scannedFiles := 0\<rparr>" by (simp add: initial_stats_def)
  have "(\<exists>err. fst (migrate e h) = Threw err) \<and> executed (snd (migrate e h)) = []
      \<and> history (snd (migrate e h)) = h \<and> data (snd (migrate e h)) = []
      \<and> executedFiles (stats (snd (migrate e h))) = 0
      \<and> (\<exists>n. stats (snd (migrate e h)) = initial_stats\<lparr>scannedFiles := n\<rparr>)"
    using assms
  proof (cases rule: not_ready_cases[where h = h])
    case (require module)
    then show ?thesis using z by (auto simp: initial_stats_def)
  next
    case directory
    then show ?thesis using z by (auto simp: initial_stats_def)
  next
    case (scan err)
    then show ?thesis using z by (auto simp: initial_stats_def)
  next
    case backend
    then show ?thesis by (auto simp: initial_stats_def)
  qed
  then show "\<exists>err. fst (migrate e h) = Threw err"
    and "executed (snd (migrate e h)) = []"
    and "history (snd (migrate e h)) = h"
    and "data (snd (migrate e h)) = []"
    and "executedFiles (stats (snd (migrate e h))) = 0"
    and "\<exists>n. stats (snd (migrate e h)) = initial_stats\<lparr>scannedFiles := n\<rparr>"
    by blast+
qed

lemma migrate_locked:
  assumes "ready e" "get_latest h = Some latest" "\<not> success latest"
  shows "fst (migrate e h) = Threw (PreviousFailed (version latest) (script latest))"
    and "executed (snd (migrate e h)) = []"
    and "history (snd (migrate e h)) = h"
    and "data (snd (migrate e h)) = []"
    and "executedFiles (stats (snd (migrate e h))) = 0"
    and "stats (snd (migrate e h)) = initial_stats\<lparr>scannedFiles := length (candidates e)\<rparr>"
  using migrate_previous_failed[OF assms] by (simp_all add: initial_stats_def)

lemma migrate_scan_failed:
  assumes "preloaded e" "dir_exists e" "snd (scan e) = Inl err"
  shows "fst (migrate e h) = Threw err"
  using migrate_scan_error[OF assms] by simp

lemma migrate_ready:
  assumes "ready e" "unlocked h"
  shows "migrate e h = execute e (base_rank h) (filter (after_latest h) (candidates e)) (found_state e h)"
proof -
  obtain ws files where sc: "scan e = (ws, Inr files)"
    using assms(1) by (cases "scan e"; cases "snd (scan e)") (auto simp: ready_def scan_ok_def)
  have pre: "required e = None \<or> (\<exists>module. required e = Some (module, True))"
    using assms(1) by (auto simp: ready_def preloaded_def split: option.splits)
  have de: "dir_exists e" "backend_ok e"
    using assms(1) by (auto simp: ready_def)
  show ?thesis
  proof (cases "get_latest h")
    case None
    then have "filter (after_latest h) (candidates e) = files"
      by (simp add: after_latest_def[abs_def] candidates_def sc)
    with None pre de sc show ?thesis
      by (auto simp: migrate_def Let_def base_rank_def found_state_def candidates_def)
  next
    case (Some latest)
    then have "success latest" using assms(2) by (simp add: unlocked_def)
    moreover have "filter (after_latest h) (candidates e) = filter (\<lambda>file. version latest < version file) files"
      using Some by (simp add: after_latest_def[abs_def] candidates_def sc)
    ultimately show ?thesis
      using Some pre de sc
      by (auto simp: migrate_def Let_def base_rank_def found_state_def candidates_def)
  qed
qed

lemma scanned_state_eq:
  "ready e \<Longrightarrow> unlocked h \<Longrightarrow>
   scanned_state e h =
     log_call [Str (''Executing '' @ show_nat (length (filter (after_latest h) (candidates e))) @ '' migration files'')]
       (found_state e h)"
  by (simp add: scanned_state_def found_state_def pending_def Let_def)

lemma migrate_runs:
  assumes "ready e" "unlocked h"
  shows "fst (migrate e h) = fst (run_files e (base_rank h) (pending e h) (scanned_state e h))"
    and "stats (snd (migrate e h)) = stats (snd (run_files e (base_rank h) (pending e h) (scanned_state e h)))"
    and "history (snd (migrate e h)) = history (snd (run_files e (base_rank h) (pending e h) (scanned_state e h)))"
    and "data (snd (migrate e h)) = data (snd (run_files e (base_rank h) (pending e h) (scanned_state e h)))"
    and "executed (snd (migrate e h)) = executed (snd (run_files e (base_rank h) (pending e h) (scanned_state e h)))"
  using assms
  by (simp_all add: migrate_ready execute_fields scanned_state_eq) (simp_all add: pending_def)

subsection \<open>Evaluation of the concrete runs\<close>

lemmas coerce_eval = semver_coerce_def dot_group_def parse_main_def numeric_identifier_def
  read_nat_def digit_val_def is_digit_def MAX_SAFE_INTEGER_def MAX_SAFE_COMPONENT_LENGTH_def

lemmas scan_eval = scan_def parse_files.simps description_of_def truthy_def
  basename_def extname_def path_join_def Let_def

lemmas run_eval = migrate_def execute_def run_files.simps begin_file_def trackAsync_def
  handleCheck_def upload_def set_frozen_def doc_call_def add_call_def batch_call_def commit_def
  batch_method_def new_batch_def ogCommit_def fn_call_def add_fn_def log_call_def
  history_entry_def doc_id_def initial_state_def initial_stats_def get_latest_def newer_def
  version_string_def show_int_def show_nat.simps digit_char_def Let_def increment_def truthy_def

lemma coerce_examples:
  "semver_coerce ''1.2.0'' = Some (1, 2, 0)"
  "semver_coerce ''v1'' = Some (1, 0, 0)"
  "semver_coerce ''1.1'' = Some (1, 1, 0)"
  "semver_coerce ''README.md'' = None"
  by (simp_all add: coerce_eval)

lemma demo_env_fields [simp]:
  "req demo_env = None" "dir demo_env = ''/m''" "dir_exists demo_env" "backend_ok demo_env"
  "dryrun demo_env = False" "forceWait demo_env = False" "scripts demo_env = demo_scripts"
  "username demo_env = ''ci''" "file_md5 demo_env = (\<lambda>p. ''d41d8cd9'')"
  "node_major demo_env = 16" "coerce demo_env = semver_coerce"
  by (simp_all add: demo_env_def)

lemma demo_scan:
  "scan demo_env = ([], Inr
     [\<lparr>version = (1, 2, 0), description = ''c'', filename = ''1.2.0__c.js'',
        path = ''/m/1.2.0__c.js''\<rparr>,
      \<lparr>version = (1, 0, 0), description = ''first'', filename = ''v1__first.js'',
        path = ''/m/v1__first.js''\<rparr>,
      \<lparr>version = (1, 1, 0), description = ''b'', filename = ''1.1__b.js'',
        path = ''/m/1.1__b.js''\<rparr>])"
  by (simp add: scan_eval filenames_def demo_env_def coerce_examples)

lemma demo_ready: "ready demo_env"
  by (simp add: ready_def preloaded_def scan_ok_def demo_scan)

lemmas demo_scripts_eval = demo_scripts_def first_script_def batch_script_def small_script_def

subsection \<open>The scan\<close>

lemma described_nonempty: "described name \<Longrightarrow> name \<noteq> []"
  by (auto simp: described_def description_of_def truthy_def)

lemma parse_files_skip:
  "\<not> is_candidate co name \<Longrightarrow> \<not> malformed co name \<Longrightarrow>
     snd (parse_files co d vtf (name # rest)) = snd (parse_files co d vtf rest)"
  by (auto simp: is_candidate_def malformed_def token_def described_def Let_def split_beta
           split: option.splits)

lemma parse_files_malformed:
  "malformed co name \<Longrightarrow> parse_files co d vtf (name # rest) = ([], Inl (BadFilename name))"
  by (auto simp: malformed_def token_def described_def Let_def split: option.splits)

lemma parse_files_duplicate:
  "is_candidate co name \<Longrightarrow> vtf (the (co (token name))) = Some existing \<Longrightarrow> existing \<noteq> [] \<Longrightarrow>
     parse_files co d vtf (name # rest) = ([], Inl (SameVersion name existing))"
  by (auto simp: is_candidate_def token_def described_def Let_def split: option.splits)

lemma parse_files_candidate:
  "is_candidate co name \<Longrightarrow> names_only vtf \<Longrightarrow> vtf (the (co (token name))) = None \<Longrightarrow>
     snd (parse_files co d vtf (name # rest)) =
       map_sum id ((#) (file_of co d name))
         (snd (parse_files co d (vtf(the (co (token name)) \<mapsto> name)) rest))"
  by (auto simp: is_candidate_def token_def described_def Let_def file_of_def split_beta
           split: option.splits)

declare parse_files.simps(2) [simp del]

lemma names_onlyD: "names_only vtf \<Longrightarrow> vtf v = Some n \<Longrightarrow> n \<noteq> []"
  unfolding names_only_def by blast

lemma names_only_upd: "names_only vtf \<Longrightarrow> described name \<Longrightarrow> names_only (vtf(v \<mapsto> name))"
  by (auto simp: names_only_def dest: described_nonempty)

lemma name_cases:
  obtains (skip) "\<not> is_candidate co name" "\<not> malformed co name"
  | (bad) "malformed co name"
  | (cand) "is_candidate co name"
  by (auto simp: is_candidate_def malformed_def)

lemma parse_files_Inr:
  assumes "names_only vtf" and "snd (parse_files co d vtf names) = Inr files"
  shows "files = map (file_of co d) (filter (is_candidate co) names)
       \<and> (\<forall>n\<in>set names. \<not> malformed co n)
       \<and> distinct (map version files)
       \<and> (\<forall>f\<in>set files. vtf (version f) = None)"
  using assms
proof (induction names arbitrary: vtf files)
  case Nil
  then show ?case by simp
next
  case (Cons name rest)
  show ?case
  proof (cases rule: name_cases[of co name])
    case skip
    then show ?thesis using Cons by (simp add: parse_files_skip)
  next
    case bad
    then show ?thesis using Cons.prems by (simp add: parse_files_malformed)
  next
    case cand
    let ?v = "the (co (token name))"
    have nm: "\<not> malformed co name" using cand by (simp add: is_candidate_def malformed_def)
    show ?thesis
    proof (cases "vtf ?v")
      case None
      let ?vtf' = "vtf(?v \<mapsto> name)"
      from Cons.prems cand None obtain files' where
        r: "snd (parse_files co d ?vtf' rest) = Inr files'" and f: "files = file_of co d name # files'"
        by (cases "snd (parse_files co d ?vtf' rest)") (auto simp: parse_files_candidate)
      have "names_only ?vtf'" using Cons.prems(1) cand by (simp add: names_only_upd is_candidate_def)
      from Cons.IH[OF this r] have
        ih: "files' = map (file_of co d) (filter (is_candidate co) rest)"
            "\<forall>n\<in>set rest. \<not> malformed co n" "distinct (map version files')"
            "\<forall>f\<in>set files'. ?vtf' (version f) = None"
        by auto
      have v: "version (file_of co d name) = ?v" by (simp add: file_of_def)
      from ih(4) have "\<forall>f\<in>set files'. version f \<noteq> ?v \<and> vtf (version f) = None"
        by (auto split: if_splits)
      then show ?thesis using ih f cand nm None v by auto
    next
      case (Some existing)
      then have "existing \<noteq> []" using Cons.prems(1) by (rule names_onlyD[rotated])
      then show ?thesis using Cons.prems cand Some by (simp add: parse_files_duplicate)
    qed
  qed
qed

lemma candidate_version: "is_candidate co n \<Longrightarrow> co (token n) = Some (the (co (token n)))"
  by (auto simp: is_candidate_def)





lemma listing_env_fields [simp]:
  "filenames (listing_env names) = names"
  "coerce (listing_env names) = semver_coerce"
  "dir (listing_env names) = ''/m''"
  "preloaded (listing_env names)"
  "dir_exists (listing_env names)"
  "backend_ok (listing_env names)"
  "dryrun (listing_env names) = False"
  "scripts (listing_env names) = demo_scripts"
  by (simp_all add: listing_env_def demo_env_def filenames_def preloaded_def comp_def)

lemmas name_eval = is_candidate_def malformed_def token_def described_def description_of_def
  truthy_def

subsection \<open>File names\<close>

lemma split_sep_nonempty [simp]: "split_sep acc s \<noteq> []"
  by (induction acc s rule: split_sep.induct) auto

lemma join_Cons: "ps \<noteq> [] \<Longrightarrow> join_sep (p # ps) = p @ ''__'' @ join_sep ps"
  by (cases ps) simp_all

lemma join_split_sep: "join_sep (split_sep acc s) = acc @ s"
  by (induction acc s rule: split_sep.induct) (simp_all add: join_Cons)

lemma extname_suffix: "\<exists>pre. p = pre @ extname p \<and> (extname p \<noteq> [] \<longrightarrow> pre \<noteq> [])"
proof -
  let ?after = "rev (takeWhile (\<lambda>c. c \<noteq> CHR ''.'') (rev p))"
  let ?upto = "rev (dropWhile (\<lambda>c. c \<noteq> CHR ''.'') (rev p))"
  have p: "p = ?upto @ ?after"
    by (metis rev_append rev_rev_ident takeWhile_dropWhile_id)
  show ?thesis
  proof (cases "length ?upto \<le> 1 \<or> p = ''..''")
    case True
    then show ?thesis by (simp add: extname_def Let_def)
  next
    case False
    then have e: "extname p = CHR ''.'' # ?after" by (simp add: extname_def Let_def)
    from False have ne: "dropWhile (\<lambda>c. c \<noteq> CHR ''.'') (rev p) \<noteq> []"
      by (auto simp del: dropWhile_eq_Nil_conv)
    then have "hd (dropWhile (\<lambda>c. c \<noteq> CHR ''.'') (rev p)) = CHR ''.''"
      using hd_dropWhile[of "\<lambda>c. c \<noteq> CHR ''.''" "rev p"] by simp
    then have "last ?upto = CHR ''.''" using ne by (simp add: last_rev)
    moreover have "?upto \<noteq> []" using ne by simp
    ultimately have u: "?upto = butlast ?upto @ [CHR ''.'']"
      by (metis append_butlast_last_id)
    have "p = butlast ?upto @ extname p"
      using p u e by (metis append.assoc append_Cons append_Nil)
    moreover have "butlast ?upto \<noteq> []"
      using False by (cases "?upto" rule: rev_cases) (auto simp: not_le)
    ultimately show ?thesis by blast
  qed
qed

lemma basename_extname: "basename p (extname p) @ extname p = p"
proof -
  obtain pre where p: "p = pre @ extname p" and ne: "extname p \<noteq> [] \<longrightarrow> pre \<noteq> []"
    using extname_suffix by blast
  show ?thesis
  proof (cases "extname p = []")
    case True
    then show ?thesis by (simp add: basename_def)
  next
    case False
    with ne have pre: "pre \<noteq> []" by simp
    have l: "length p = length pre + length (extname p)" by (subst p) simp
    have d: "drop (length p - length (extname p)) p = extname p"
      using l by (subst (2) p) simp
    have t: "take (length p - length (extname p)) p = pre"
      using l by (subst (2) p) simp
    have "extname p \<noteq> p" using p pre by (metis append_self_conv2)
    with False d t l have "basename p (extname p) = pre" by (simp add: basename_def)
    with p show ?thesis by simp
  qed
qed

lemma scan_candidates:
  assumes "scan_ok e"
  shows "candidates e = map (file_of (coerce e) (dir e)) (filter (is_candidate (coerce e)) (filenames e))"
    and "\<forall>n\<in>set (filenames e). \<not> malformed (coerce e) n"
    and "distinct (map version (candidates e))"
proof -
  obtain files where f: "snd (scan e) = Inr files"
    using assms by (auto simp: scan_ok_def split: sum.splits)
  have no: "names_only Map.empty" by (simp add: names_only_def)
  from parse_files_Inr[OF no f[unfolded scan_def]] have
    r: "files = map (file_of (coerce e) (dir e)) (filter (is_candidate (coerce e)) (filenames e))"
       "\<forall>n\<in>set (filenames e). \<not> malformed (coerce e) n" "distinct (map version files)"
    by blast+
  have c: "candidates e = files" by (simp add: candidates_def f)
  show "candidates e = map (file_of (coerce e) (dir e)) (filter (is_candidate (coerce e)) (filenames e))"
    using r(1) c by simp
  show "\<forall>n\<in>set (filenames e). \<not> malformed (coerce e) n" using r(2) .
  show "distinct (map version (candidates e))" using r(3) c by simp
qed

lemma described_second:
  "described name \<Longrightarrow> the (description_of (split_sep [] name)) = split_sep [] name ! 1"
  by (auto simp: described_def description_of_def truthy_def split: list.splits)

lemma two_parts:
  assumes "length (split_sep [] name) = 2"
  shows "name = token name @ ''__'' @ split_sep [] name ! 1"
proof -
  obtain a b where s: "split_sep [] name = [a, b]"
    using assms by (cases "split_sep [] name"; cases "tl (split_sep [] name)") auto
  have "join_sep (split_sep [] name) = name" by (simp add: join_split_sep)
  with s show ?thesis by (simp add: token_def)
qed

lemma users_scan:
  "scan (listing_env [''1.0.0__add_users.js'']) =
     ([], Inr [\<lparr>version = (1, 0, 0), description = ''add_users'',
                filename = ''1.0.0__add_users.js'', path = ''/m/1.0.0__add_users.js''\<rparr>])"
  "scan (listing_env [''1.0.0__add__users.js'']) =
     ([], Inr [\<lparr>version = (1, 0, 0), description = ''add'',
                filename = ''1.0.0__add__users.js'', path = ''/m/1.0.0__add__users.js''\<rparr>])"
  "scan (listing_env [''1.0.0'']) = ([], Inl (BadFilename ''1.0.0''))"
  by (simp_all add: scan_eval coerce_eval)

subsection \<open>The history written by a run\<close>

lemma record_key_entry:
  "record_key (history_entry e rank f m ok) = ''fireway/'' @ doc_id rank f"
  by (simp add: record_key_def history_entry_def doc_id_def)

lemma consecutive_Nil [simp]: "consecutive_from b []"
  by (simp add: consecutive_from_def)

lemma consecutive_Cons:
  "consecutive_from b (r # recs) = (installed_rank r = b \<and> consecutive_from (b + 1) recs)"
proof -
  have "map (\<lambda>i. b + int i) [0..<Suc (length recs)] = b # map (\<lambda>i. b + 1 + int i) [0..<length recs]"
    by (simp add: upt_conv_Cons map_Suc_upt[symmetric] del: upt_Suc)
  then show ?thesis by (auto simp: consecutive_from_def)
qed

lemma history_loop:
  assumes "\<not> dryrun e"
  shows "\<exists>recs. history (snd (run_files e rank fs st)) = append_records recs (history st)
           \<and> ranked_from rank recs
           \<and> length recs \<le> length fs
           \<and> (\<forall>r\<in>set recs. \<exists>f\<in>set fs. version r = version f \<and> description r = description f
                  \<and> script r = filename f)"
proof (induction fs arbitrary: rank st)
  case Nil
  have "history (snd (run_files e rank [] st)) = append_records [] (history st)"
    by (simp add: append_records_def)
  then show ?case by (intro exI[of _ "[]"]) simp
next
  case (Cons f fs)
  show ?case
  proof (cases rule: run_files_cases[of e f])
    case (load_failed err)
    then have "history (snd (run_files e rank (f # fs) st)) = append_records [] (history st)"
      by (simp add: run_files_steps append_records_def)
    then show ?thesis by (intro exI[of _ "[]"]) simp
  next
    case (blocked m)
    then have "history (snd (run_files e rank (f # fs) st)) = append_records [] (history st)"
      by (simp add: run_files_steps append_records_def invoke_fields)
    then show ?thesis by (intro exI[of _ "[]"]) simp
  next
    case (failed m)
    let ?r = "history_entry e (increment rank) f m False"
    have "history (snd (run_files e rank (f # fs) st)) = append_records [?r] (history st)"
      using failed assms
      by (simp add: run_files_steps append_records_def invoke_fields upload_fields record_key_entry)
    moreover have "ranked_from rank [?r]"
      by (simp add: consecutive_Cons history_entry_def)
    moreover have "version ?r = version f \<and> description ?r = description f \<and> script ?r = filename f"
      by (simp add: history_entry_def)
    ultimately show ?thesis by (intro exI[of _ "[?r]"]) simp
  next
    case (passed m)
    let ?r = "history_entry e (increment rank) f m True"
    let ?up = "upload e (increment rank) f m True (invoke e f m st)"
    have h: "history ?up = append_records [?r] (history st)"
      using assms by (simp add: append_records_def invoke_fields upload_fields record_key_entry)
    obtain recs where r: "history (snd (run_files e (increment rank) fs ?up)) = append_records recs (history ?up)"
      "ranked_from (increment rank) recs" "length recs \<le> length fs"
      "\<forall>r\<in>set recs. \<exists>f\<in>set fs. version r = version f \<and> description r = description f
                  \<and> script r = filename f"
      using Cons.IH[of "increment rank" ?up] by blast
    have "history (snd (run_files e rank (f # fs) st)) = append_records (?r # recs) (history st)"
      using passed r(1) h by (simp add: run_files_steps append_records_def)
    moreover have "ranked_from rank (?r # recs)"
      using r(2) by (simp add: consecutive_Cons history_entry_def)
    moreover have "version ?r = version f \<and> description ?r = description f \<and> script ?r = filename f"
      by (simp add: history_entry_def)
    ultimately show ?thesis using r(3,4) by (intro exI[of _ "?r # recs"]) auto
  qed
qed

subsection \<open>Document names\<close>

lemma digit_char_props:
  assumes "d < 10"
  shows "is_digit (digit_char d)" and "digit_val (digit_char d) = d" and "digit_char d \<noteq> CHR ''-''"
proof -
  from assms have "d = 0 \<or> d = 1 \<or> d = 2 \<or> d = 3 \<or> d = 4 \<or> d = 5 \<or> d = 6 \<or> d = 7 \<or> d = 8 \<or> d = 9"
    by arith
  then show "is_digit (digit_char d)" and "digit_val (digit_char d) = d"
    and "digit_char d \<noteq> CHR ''-''"
    by (auto simp: is_digit_def digit_char_def digit_val_def)
qed

lemma show_nat_digits: "list_all is_digit (show_nat n)"
proof (induction n rule: show_nat.induct)
  case (1 n)
  show ?case
  proof (cases "n < 10")
    case True
    then show ?thesis by (subst show_nat.simps) (simp add: digit_char_props)
  next
    case False
    then show ?thesis using 1 by (subst show_nat.simps) (simp add: digit_char_props)
  qed
qed

lemma read_nat_snoc: "read_nat (ds @ [c]) = 10 * read_nat ds + digit_val c"
  by (simp add: read_nat_def)

lemma read_show_nat: "read_nat (show_nat n) = n"
proof (induction n rule: show_nat.induct)
  case (1 n)
  show ?case
  proof (cases "n < 10")
    case True
    then show ?thesis by (subst show_nat.simps) (simp add: read_nat_def digit_char_props)
  next
    case False
    then have "read_nat (show_nat n) = 10 * (n div 10) + n mod 10"
      using 1 by (subst show_nat.simps) (simp add: read_nat_snoc digit_char_props)
    then show ?thesis by simp
  qed
qed

lemma show_nat_inj: "show_nat a = show_nat b \<Longrightarrow> a = b"
  by (metis read_show_nat)

lemma show_nat_no_dash: "CHR ''-'' \<notin> set (show_nat n)"
proof -
  have "\<not> is_digit CHR ''-''" by (simp add: is_digit_def)
  then show ?thesis using show_nat_digits[of n] by (auto simp: list_all_iff)
qed

lemma takeWhile_dash: "CHR ''-'' \<notin> set a \<Longrightarrow> takeWhile (\<lambda>c. c \<noteq> CHR ''-'') (a @ CHR ''-'' # x) = a"
  by (induction a) auto

lemma dash_split:
  assumes "CHR ''-'' \<notin> set a" "CHR ''-'' \<notin> set b" "a @ CHR ''-'' # x = b @ CHR ''-'' # y"
  shows "a = b"
  using takeWhile_dash[OF assms(1), of x] takeWhile_dash[OF assms(2), of y] assms(3) by simp

lemma record_key_rank:
  assumes "0 \<le> installed_rank r" "0 \<le> installed_rank r'" "record_key r = record_key r'"
  shows "installed_rank r = installed_rank r'"
proof -
  from assms have "show_nat (nat (installed_rank r)) @ CHR ''-'' # (version_string (version r) @ ''-'' @ description r)
      = show_nat (nat (installed_rank r')) @ CHR ''-'' # (version_string (version r') @ ''-'' @ description r')"
    by (simp add: record_key_def show_int_def)
  then have "show_nat (nat (installed_rank r)) = show_nat (nat (installed_rank r'))"
    by (rule dash_split[OF show_nat_no_dash show_nat_no_dash])
  then have "nat (installed_rank r) = nat (installed_rank r')" by (rule show_nat_inj)
  with assms show ?thesis by simp
qed

subsection \<open>The latest record and histories written by the engine\<close>

lemma latest_doc_None [simp]: "(latest_doc h = None) = (h = [])"
  by (induction h) (auto split: option.splits)

lemma latest_doc_max:
  "latest_doc h = Some m \<Longrightarrow>
     m \<in> set h \<and> (\<forall>x\<in>set h. installed_rank (snd x) \<le> installed_rank (snd m))"
proof (induction h arbitrary: m)
  case Nil
  then show ?case by simp
next
  case (Cons e es)
  show ?case
  proof (cases "latest_doc es")
    case None
    then show ?thesis using Cons.prems by simp
  next
    case (Some m')
    from Cons.IH[OF Some] have ih: "m' \<in> set es" "\<forall>x\<in>set es. installed_rank (snd x) \<le> installed_rank (snd m')"
      by auto
    show ?thesis
    proof (cases "newer m' e")
      case True
      then have "installed_rank (snd e) \<le> installed_rank (snd m')"
        by (auto simp: newer_def)
      with True Some Cons.prems ih show ?thesis by auto
    next
      case False
      then have "installed_rank (snd m') \<le> installed_rank (snd e)"
        by (auto simp: newer_def not_less)
      with False Some Cons.prems ih show ?thesis by fastforce
    qed
  qed
qed

lemma ranks_below_next: "\<forall>x\<in>set h. installed_rank (snd x) < base_rank h + 1"
proof (cases "latest_doc h")
  case None
  then show ?thesis by simp
next
  case (Some m)
  then show ?thesis using latest_doc_max[OF Some] by (auto simp: base_rank_def get_latest_def)
qed

lemma set_put_doc: "set (put_doc k v h) \<subseteq> insert (k, v) (set h)"
  by (induction h) (auto split: if_splits)

lemma latest_put_doc:
  "\<forall>x\<in>set h. installed_rank (snd x) < installed_rank v \<Longrightarrow> latest_doc (put_doc k v h) = Some (k, v)"
proof (induction h)
  case Nil
  then show ?case by simp
next
  case (Cons e es)
  obtain k' v' where e: "e = (k', v')" by (cases e)
  show ?case
  proof (cases "k' = k")
    case True
    show ?thesis
    proof (cases "latest_doc es")
      case None
      then show ?thesis using True e by simp
    next
      case (Some m)
      then have "installed_rank (snd m) < installed_rank v"
        using latest_doc_max[OF Some] Cons.prems by auto
      then have "\<not> newer m (k, v)" by (auto simp: newer_def)
      then show ?thesis using True e Some by simp
    qed
  next
    case False
    have "latest_doc (put_doc k v es) = Some (k, v)" using Cons by simp
    moreover have "newer (k, v) (k', v')" using Cons.prems e by (simp add: newer_def)
    ultimately show ?thesis using False e by simp
  qed
qed

lemma latest_append_records:
  assumes "\<forall>x\<in>set h. installed_rank (snd x) < b" "consecutive_from b recs" "recs \<noteq> []"
  shows "get_latest (append_records recs h) = Some (last recs)"
  using assms
proof (induction recs arbitrary: h b)
  case Nil
  then show ?case by simp
next
  case (Cons r recs)
  from Cons.prems(2) have r: "installed_rank r = b" and c: "consecutive_from (b + 1) recs"
    by (simp_all add: consecutive_Cons)
  let ?h = "put_doc (record_key r) r h"
  have b: "\<forall>x\<in>set ?h. installed_rank (snd x) < b + 1"
    using set_put_doc[of "record_key r" r h] Cons.prems(1) r by fastforce
  show ?case
  proof (cases "recs = []")
    case True
    have "latest_doc ?h = Some (record_key r, r)"
      using Cons.prems(1) r by (intro latest_put_doc) simp
    then show ?thesis using True by (simp add: append_records_def get_latest_def)
  next
    case False
    from Cons.IH[OF b c False] show ?thesis using False by (simp add: append_records_def)
  qed
qed

lemma put_doc_fresh: "k \<notin> fst ` set h \<Longrightarrow> put_doc k v h = h @ [(k, v)]"
  by (induction h) auto

lemma engine_history_ranks:
  assumes "engine_history h" "i < length h"
  shows "installed_rank (snd (h ! i)) = int i" and "fst (h ! i) = record_key (snd (h ! i))"
proof -
  have "map (\<lambda>entry. installed_rank (snd entry)) h ! i = map int [0..<length h] ! i"
    using assms by (simp add: engine_history_def)
  then show "installed_rank (snd (h ! i)) = int i" using assms(2) by simp
  show "fst (h ! i) = record_key (snd (h ! i))"
    using assms by (simp add: engine_history_def list_all_length)
qed

lemma engine_history_snoc:
  assumes "engine_history h" "installed_rank r = int (length h)"
  shows "put_doc (record_key r) r h = h @ [(record_key r, r)]"
    and "engine_history (h @ [(record_key r, r)])"
proof -
  have "record_key r \<notin> fst ` set h"
  proof
    assume "record_key r \<in> fst ` set h"
    then obtain i where i: "i < length h" "fst (h ! i) = record_key r"
      by (auto simp: in_set_conv_nth)
    then have k: "record_key (snd (h ! i)) = record_key r"
      using engine_history_ranks(2)[OF assms(1) i(1)] by simp
    have "installed_rank (snd (h ! i)) = int i" using engine_history_ranks(1)[OF assms(1) i(1)] .
    moreover have "installed_rank (snd (h ! i)) = installed_rank r"
      using record_key_rank[OF _ _ k] assms(2) calculation by simp
    ultimately show False using assms(2) i(1) by simp
  qed
  then show "put_doc (record_key r) r h = h @ [(record_key r, r)]" by (rule put_doc_fresh)
  show "engine_history (h @ [(record_key r, r)])"
    using assms by (simp add: engine_history_def)
qed

lemma engine_history_append:
  assumes "engine_history h" "consecutive_from (int (length h)) recs"
  shows "append_records recs h = h @ map (\<lambda>r. (record_key r, r)) recs"
    and "engine_history (append_records recs h)"
  using assms
proof (induction recs arbitrary: h)
  case Nil
  { case 1 show ?case by (simp add: append_records_def) }
  { case 2 then show ?case by (simp add: append_records_def) }
next
  case (Cons r recs)
  { case 1
    from 1(2) have r: "installed_rank r = int (length h)"
      and c: "consecutive_from (int (length (h @ [(record_key r, r)]))) recs"
      by (simp_all add: consecutive_Cons add.commute)
    have p: "put_doc (record_key r) r h = h @ [(record_key r, r)]"
      using engine_history_snoc(1)[OF 1(1) r] .
    have e: "engine_history (h @ [(record_key r, r)])" using engine_history_snoc(2)[OF 1(1) r] .
    show ?case using Cons.IH(1)[OF e c] p by (simp add: append_records_def) }
  { case 2
    from 2(2) have r: "installed_rank r = int (length h)"
      and c: "consecutive_from (int (length (h @ [(record_key r, r)]))) recs"
      by (simp_all add: consecutive_Cons add.commute)
    have p: "put_doc (record_key r) r h = h @ [(record_key r, r)]"
      using engine_history_snoc(1)[OF 2(1) r] .
    have e: "engine_history (h @ [(record_key r, r)])" using engine_history_snoc(2)[OF 2(1) r] .
    show ?case using Cons.IH(2)[OF e c] p by (simp add: append_records_def) }
qed

lemma engine_history_base: "engine_history h \<Longrightarrow> base_rank h = int (length h) - 1"
proof (cases "latest_doc h")
  case None
  then show ?thesis by (simp add: base_rank_def get_latest_def)
next
  case (Some m)
  assume e: "engine_history h"
  from Some have ne: "h \<noteq> []" by auto
  from latest_doc_max[OF Some] have m: "m \<in> set h"
    and mx: "\<forall>x\<in>set h. installed_rank (snd x) \<le> installed_rank (snd m)" by auto
  from m obtain i where i: "i < length h" "h ! i = m" by (auto simp: in_set_conv_nth)
  have "installed_rank (snd m) = int i" using engine_history_ranks(1)[OF e i(1)] i(2) by simp
  moreover have "installed_rank (snd (h ! (length h - 1))) = int (length h - 1)"
    using engine_history_ranks(1)[OF e, of "length h - 1"] ne by simp
  moreover have "h ! (length h - 1) \<in> set h" using ne by simp
  ultimately have "int i \<ge> int (length h - 1)" using mx by (metis)
  with i(1) have "int i = int (length h) - 1" by simp
  with \<open>installed_rank (snd m) = int i\<close> Some show ?thesis
    by (simp add: base_rank_def get_latest_def)
qed

lemma consecutive_nth:
  "consecutive_from b recs \<Longrightarrow> i < length recs \<Longrightarrow> installed_rank (recs ! i) = b + int i"
proof -
  assume c: "consecutive_from b recs" and i: "i < length recs"
  have "map installed_rank recs ! i = map (\<lambda>i. b + int i) [0..<length recs] ! i"
    using c by (simp add: consecutive_from_def)
  then show ?thesis using i by simp
qed

lemma migrate_history:
  "\<exists>recs. history (snd (migrate e h)) = append_records recs h
      \<and> ranked_from (base_rank h) recs
      \<and> length recs \<le> length (pending e h)
      \<and> (dryrun e \<longrightarrow> recs = [])
      \<and> (\<forall>r\<in>set recs. \<exists>f\<in>set (pending e h). version r = version f
             \<and> description r = description f \<and> script r = filename f)"
proof (cases "ready e \<and> unlocked h")
  case False
  then have "history (snd (migrate e h)) = h"
    using migrate_not_ready(3)[of e h] migrate_locked(3)[of e h]
    by (auto simp: unlocked_def split: option.splits)
  then have "history (snd (migrate e h)) = append_records [] h" by (simp add: append_records_def)
  then show ?thesis by (intro exI[of _ "[]"]) simp
next
  case True
  then have m: "history (snd (migrate e h)) =
      history (snd (run_files e (base_rank h) (pending e h) (scanned_state e h)))"
    using migrate_runs(3) by blast
  show ?thesis
  proof (cases "dryrun e")
    case True
    then have "history (snd (migrate e h)) = append_records [] h"
      using m by (simp add: history_dry_loop append_records_def)
    then show ?thesis by (intro exI[of _ "[]"]) simp
  next
    case False
    from history_loop[OF False, of "base_rank h" "pending e h" "scanned_state e h"] m False
    show ?thesis by auto
  qed
qed

lemma demo_pending:
  "pending demo_env [] =
     [\<lparr>version = (1, 0, 0), description = ''first'', filename = ''v1__first.js'',
        path = ''/m/v1__first.js''\<rparr>,
      \<lparr>version = (1, 1, 0), description = ''b'', filename = ''1.1__b.js'',
        path = ''/m/1.1__b.js''\<rparr>,
      \<lparr>version = (1, 2, 0), description = ''c'', filename = ''1.2.0__c.js'',
        path = ''/m/1.2.0__c.js''\<rparr>]"
  by (simp add: pending_def demo_ready unlocked_def get_latest_def candidates_def demo_scan
        after_latest_def)

lemma demo_history_ranks:
  "map (\<lambda>entry. (fst entry, installed_rank (snd entry), success (snd entry)))
       (history (snd (migrate demo_env []))) =
     [(''fireway/0-1.0.0-first'', 0, True), (''fireway/1-1.1.0-b'', 1, True),
      (''fireway/2-1.2.0-c'', 2, True)]"
  by (simp add: run_eval demo_scan demo_scripts_eval)



lemma pending_sorted: "sorted_wrt (\<lambda>a b. version a < version b) (pending e h)"
proof (cases "ready e \<and> unlocked h")
  case False
  then show ?thesis by (auto simp: pending_def)
next
  case True
  let ?xs = "filter (after_latest h) (candidates e)"
  have "distinct (map version (candidates e))"
    using scan_candidates(3)[of e] True by (simp add: ready_def)
  then have d: "distinct (map version ?xs)" by (rule distinct_map_filter)
  then have "distinct (sort_key version ?xs) \<and> inj_on version (set (sort_key version ?xs))"
    by (simp add: distinct_map)
  then have "distinct (map version (sort_key version ?xs))" by (simp add: distinct_map)
  moreover have "sorted (map version (sort_key version ?xs))" by (rule sorted_sort_key)
  ultimately have "sorted_wrt (<) (map version (sort_key version ?xs))"
    by (simp add: strict_sorted_iff)
  then show ?thesis using True by (simp add: pending_def sorted_wrt_map)
qed



lemma migrate_executed:
  "\<exists>n. executed (snd (migrate e h)) = take n (pending e h)"
proof (cases "ready e \<and> unlocked h")
  case False
  then have "executed (snd (migrate e h)) = []"
    using migrate_not_ready(2)[of e h] migrate_locked(2)[of e h]
    by (auto simp: unlocked_def split: option.splits)
  then have "executed (snd (migrate e h)) = take 0 (pending e h)" by simp
  then show ?thesis by blast
next
  case True
  then show ?thesis
    using executed_loop[of e "base_rank h" "pending e h" "scanned_state e h"]
    by (simp add: migrate_runs(5))
qed


lemma failing_env_fields [simp]:
  "req failing_env = None" "dir failing_env = ''/m''" "dir_exists failing_env"
  "backend_ok failing_env" "dryrun failing_env = False" "forceWait failing_env = False"
  "scripts failing_env = failing_scripts" "username failing_env = ''ci''"
  "file_md5 failing_env = (\<lambda>p. ''d41d8cd9'')" "node_major failing_env = 16"
  "scan failing_env = scan demo_env"
  by (simp_all add: failing_env_def demo_env_def scan_def filenames_def)

lemma failing_ready: "ready failing_env"
  by (simp add: ready_def preloaded_def scan_ok_def demo_scan)

lemmas failing_scripts_eval = failing_scripts_def demo_scripts_eval



lemma consecutive_snoc:
  "consecutive_from b (recs @ [r]) =
     (consecutive_from b recs \<and> installed_rank r = b + int (length recs))"
  by (auto simp: consecutive_from_def)

lemma append_records_append:
  "append_records (xs @ ys) h = append_records ys (append_records xs h)"
  by (simp add: append_records_def)

lemma history_writes_log_call:
  "history_writes (log_call l st) = history_writes st @ concat (map record_of l)"
  by (simp add: history_writes_def)

lemma history_writes_logged:
  "logged st' = logged st @ ls \<Longrightarrow>
     history_writes st' = history_writes st @ concat (map (\<lambda>l. concat (map record_of l)) ls)"
  by (simp add: history_writes_def)

lemma lines_no_record: "concat (map (\<lambda>l. concat (map record_of l)) (lines a)) = []"
proof (cases a)
  case (DocCall c w)
  then show ?thesis by (cases w) simp_all
next
  case (AddCall c r d)
  then show ?thesis by simp
next
  case (BatchCall c ws committed)
  have "concat (map (\<lambda>l. concat (map record_of l)) (map log_op (map (map_op UserDoc) ws))) = []"
  proof (induction ws)
    case Nil
    then show ?case by simp
  next
    case (Cons w ws)
    then show ?case by (cases w) simp_all
  qed
  then show ?thesis using BatchCall by (simp del: concat_eq_Nil_conv add: comp_def)
qed

lemma fold_exec_writes:
  "history_writes (fold (exec_action dry) as st) = history_writes st"
proof -
  have "concat (map (\<lambda>l. concat (map record_of l)) (concat (map lines as))) = []"
    by (induction as) (simp_all add: lines_no_record)
  then show ?thesis
    using history_writes_logged[OF fold_exec_logged[of dry as st]] by simp
qed

lemma history_writes_upd [simp]:
  "history_writes (st\<lparr>stats := s\<rparr>) = history_writes st"
  "history_writes (st\<lparr>stderr := er\<rparr>) = history_writes st"
  "history_writes (st\<lparr>executed := ex\<rparr>) = history_writes st"
  "history_writes (st\<lparr>history := hi\<rparr>) = history_writes st"
  "history_writes (st\<lparr>data := da\<rparr>) = history_writes st"
  by (simp_all add: history_writes_def)

lemma trackAsync_writes: "history_writes (snd (trackAsync e f m st)) = history_writes st"
  by (simp add: trackAsync_def Let_def handleCheck_def history_writes_log_call fold_exec_writes
        split: option.splits)

lemma invoke_writes: "history_writes (invoke e f m st) = history_writes st"
  by (simp add: invoke_def trackAsync_writes begin_file_def history_writes_log_call)

lemma upload_writes:
  "history_writes (upload e rank f m ok st) = history_writes st @ [history_entry e rank f m ok]"
proof -
  have "logged (upload e rank f m ok st) =
      logged st @ [[Str (''Uploading the results for '' @ filename f)],
                   log_op (OpSet (''fireway/'' @ doc_id rank f)
                             (HistoryDoc (history_entry e rank f m ok)) False)]"
    by (simp add: upload_def doc_call_def batch_of_one commit_fields)
  from history_writes_logged[OF this] show ?thesis by simp
qed

lemma increment_exact: "exact_ranks rank (Suc n) \<Longrightarrow> increment rank = rank + 1"
  by (simp add: exact_ranks_def increment_def)

lemma exact_ranks_Suc: "exact_ranks rank (Suc n) \<Longrightarrow> exact_ranks (rank + 1) n"
  by (simp add: exact_ranks_def)

lemma exact_ranks_less: "exact_ranks rank n \<Longrightarrow> k \<le> n \<Longrightarrow> exact_ranks rank k"
  by (simp add: exact_ranks_def)

lemma funpow_increment_exact: "exact_ranks rank n \<Longrightarrow> (increment ^^ n) rank = rank + int n"
proof (induction n arbitrary: rank)
  case 0
  then show ?case by simp
next
  case (Suc n)
  have "(increment ^^ Suc n) rank = (increment ^^ n) (increment rank)" by (simp add: funpow_swap1)
  also have "\<dots> = (increment ^^ n) (rank + 1)" using increment_exact[OF Suc.prems] by simp
  also have "\<dots> = rank + 1 + int n" using Suc.IH[OF exact_ranks_Suc[OF Suc.prems]] .
  finally show ?case by simp
qed

lemma ranked_exact:
  "exact_ranks rank (length recs) \<Longrightarrow> ranked_from rank recs = consecutive_from (rank + 1) recs"
proof (induction recs arbitrary: rank)
  case Nil
  then show ?case by simp
next
  case (Cons r recs)
  have i: "increment rank = rank + 1" using increment_exact[of rank "length recs"] Cons.prems by simp
  have "exact_ranks (rank + 1) (length recs)" using exact_ranks_Suc[of rank "length recs"] Cons.prems by simp
  from Cons.IH[OF this] show ?case by (simp add: i consecutive_Cons)
qed

lemma passed_prefix:
  assumes "\<forall>g\<in>set pre. \<exists>m. scripts e (path g) = Inr m \<and> \<not> blocks e m \<and> succeeds m"
  shows "\<exists>st'. run_files e rank (pre @ rest) st = run_files e ((increment ^^ length pre) rank) rest st'
           \<and> executed st' = executed st @ pre
           \<and> (\<exists>recs. history st' = append_records (if dryrun e then [] else recs) (history st)
                  \<and> history_writes st' = history_writes st @ recs
                  \<and> length recs = length pre \<and> list_all success recs
                  \<and> map script recs = map filename pre
                  \<and> ranked_from rank recs)"
  using assms
proof (induction pre arbitrary: rank st)
  case Nil
  have "history st = append_records (if dryrun e then [] else []) (history st)"
    by (simp add: append_records_def)
  then show ?case by (intro exI[of _ st] conjI exI[of _ "[]"]) simp_all
next
  case (Cons g pre)
  then obtain m where m: "scripts e (path g) = Inr m" "\<not> blocks e m" "succeeds m" by auto
  let ?r = "history_entry e (increment rank) g m True"
  let ?up = "upload e (increment rank) g m True (invoke e g m st)"
  have step: "run_files e rank ((g # pre) @ rest) st = run_files e (increment rank) (pre @ rest) ?up"
    using m by (simp add: run_files_steps)
  have hu: "history ?up = append_records (if dryrun e then [] else [?r]) (history st)"
    by (simp add: upload_fields invoke_fields append_records_def record_key_entry)
  have wu: "history_writes ?up = history_writes st @ [?r]"
    by (simp add: upload_writes invoke_writes)
  have eu: "executed ?up = executed st @ [g]" by (simp add: upload_fields invoke_fields)
  from Cons.IH[of "increment rank" ?up] Cons.prems obtain st' recs where
    ih: "run_files e (increment rank) (pre @ rest) ?up
           = run_files e ((increment ^^ length pre) (increment rank)) rest st'"
      "executed st' = executed ?up @ pre"
      "history st' = append_records (if dryrun e then [] else recs) (history ?up)"
      "history_writes st' = history_writes ?up @ recs"
      "length recs = length pre" "list_all success recs" "ranked_from (increment rank) recs"
      "map script recs = map filename pre"
    by auto
  have "history st' = append_records (if dryrun e then [] else ?r # recs) (history st)"
    using ih(3) hu by (simp add: append_records_def)
  moreover have "history_writes st' = history_writes st @ ?r # recs"
    using ih(4) wu by simp
  moreover have "ranked_from rank (?r # recs)"
    using ih(7) by (simp add: history_entry_def)
  moreover have "list_all success (?r # recs)" using ih(6) by (simp add: history_entry_def)
  moreover have "map script (?r # recs) = map filename (g # pre)"
    using ih(8) by (simp add: history_entry_def)
  moreover have "(increment ^^ length pre) (increment rank) = (increment ^^ length (g # pre)) rank"
    by (simp add: funpow_swap1)
  then have "run_files e rank ((g # pre) @ rest) st
      = run_files e ((increment ^^ length (g # pre)) rank) rest st'"
    using step ih(1) by (simp only:)
  moreover have "executed st' = executed st @ g # pre" using ih(2) eu by simp
  ultimately show ?case using ih(5)
    by (intro exI[of _ st'] conjI exI[of _ "?r # recs"]) simp_all
qed

lemma failing_pending: "pending failing_env [] = pending demo_env []"
  by (simp add: pending_def failing_ready demo_ready candidates_def)

lemma dry_failing_env_fields [simp]:
  "req dry_failing_env = None" "dir dry_failing_env = ''/m''" "dir_exists dry_failing_env"
  "backend_ok dry_failing_env" "dryrun dry_failing_env" "forceWait dry_failing_env = False"
  "scripts dry_failing_env = failing_scripts" "username dry_failing_env = ''ci''"
  "file_md5 dry_failing_env = (\<lambda>p. ''d41d8cd9'')" "node_major dry_failing_env = 16"
  "scan dry_failing_env = scan demo_env"
  by (simp_all add: dry_failing_env_def failing_env_def demo_env_def scan_def filenames_def)

lemma sent_dry_given: "client_of a = Given \<Longrightarrow> sent True a = []"
  by (cases a) simp_all

lemma data_loop:
  assumes "\<forall>f\<in>set fs. \<forall>m. scripts e (path f) = Inr m \<longrightarrow>
             concat (map (sent (dryrun e)) (actions m)) = []"
  shows "data (snd (run_files e rank fs st)) = data st"
  using assms
proof (induction fs arbitrary: rank st)
  case Nil
  then show ?case by simp
next
  case (Cons f fs)
  show ?case
    using Cons.prems
    by (cases rule: run_files_cases[of e f])
       (simp_all add: run_files_steps Cons.IH invoke_fields upload_fields)
qed

lemma migrate_data:
  assumes "\<forall>p m. scripts e p = Inr m \<longrightarrow> concat (map (sent (dryrun e)) (actions m)) = []"
  shows "data (snd (migrate e h)) = []"
proof (cases "ready e \<and> unlocked h")
  case False
  then show ?thesis
    using migrate_not_ready(4)[of e h] migrate_locked(4)[of e h]
    by (auto simp: unlocked_def split: option.splits)
next
  case True
  then show ?thesis
    using data_loop[of "pending e h" e "base_rank h" "scanned_state e h"] assms
    by (simp add: migrate_runs(4))
qed

lemma migrate_history_dry: "dryrun e \<Longrightarrow> history (snd (migrate e h)) = h"
  using migrate_history[of e h] by (auto simp: append_records_def)

lemma dry_env_fields [simp]:
  "req dry_env = None" "dir dry_env = ''/m''" "dir_exists dry_env" "backend_ok dry_env"
  "dryrun dry_env" "forceWait dry_env = False" "scripts dry_env = demo_scripts"
  "username dry_env = ''ci''" "file_md5 dry_env = (\<lambda>p. ''d41d8cd9'')" "node_major dry_env = 16"
  "scan dry_env = scan demo_env"
  by (simp_all add: dry_env_def demo_env_def scan_def filenames_def)

lemma demo_scripts_given:
  "demo_scripts p = Inr m \<Longrightarrow> a \<in> set (actions m) \<Longrightarrow> client_of a = Given"
  by (auto simp: demo_scripts_eval split: if_splits)







lemma fold_tally_frozen [simp]: "frozen (fold tally as s) = frozen s"
  by (induction as arbitrary: s) simp_all

lemma script_tally_frozen [simp]: "frozen (script_tally e f s) = frozen s"
  by (simp add: script_tally_def split: sum.splits)

lemma fold_script_tally_frozen [simp]: "frozen (fold (script_tally e) fs s) = frozen s"
  by (induction fs arbitrary: s) simp_all

lemma unfrozen_same: "\<not> frozen s \<Longrightarrow> s\<lparr>frozen := False\<rparr> = s"
  by simp




lemma listing_env_more [simp]:
  "req (listing_env names) = None" "forceWait (listing_env names) = False"
  "username (listing_env names) = ''ci''" "file_md5 (listing_env names) = (\<lambda>p. ''d41d8cd9'')"
  "node_major (listing_env names) = 16"
  by (simp_all add: listing_env_def demo_env_def)

lemma dry_batch_env_fields [simp]:
  "req dry_batch_env = None" "dir dry_batch_env = ''/m''" "dir_exists dry_batch_env"
  "backend_ok dry_batch_env" "dryrun dry_batch_env" "forceWait dry_batch_env = False"
  "scripts dry_batch_env = demo_scripts" "username dry_batch_env = ''ci''"
  "file_md5 dry_batch_env = (\<lambda>p. ''d41d8cd9'')" "node_major dry_batch_env = 16"
  "scan dry_batch_env = scan (listing_env [''1.1__b.js''])"
  by (simp_all add: dry_batch_env_def listing_env_def demo_env_def scan_def filenames_def)

lemma batch_only_scan:
  "scan (listing_env [''1.1__b.js'']) =
     ([], Inr [\<lparr>version = (1, 1, 0), description = ''b'', filename = ''1.1__b.js'',
                path = ''/m/1.1__b.js''\<rparr>])"
  by (simp add: scan_eval coerce_examples)

lemma two_candidates_clash:
  assumes "is_candidate co a" "is_candidate co b" "co (token a) = co (token b)"
  shows "snd (parse_files co d Map.empty [a, b]) = Inl (SameVersion b a)"
proof -
  let ?v = "the (co (token a))"
  have ne: "a \<noteq> []" using assms(1) by (simp add: is_candidate_def described_nonempty)
  have "(Map.empty(?v \<mapsto> a)) (the (co (token b))) = Some a" using assms(3) by simp
  then have "parse_files co d (Map.empty(?v \<mapsto> a)) [b] = ([], Inl (SameVersion b a))"
    using assms(2) ne by (intro parse_files_duplicate) simp_all
  moreover have "snd (parse_files co d Map.empty [a, b]) =
      map_sum id ((#) (file_of co d a)) (snd (parse_files co d (Map.empty(?v \<mapsto> a)) [b]))"
    using assms(1) by (intro parse_files_candidate) (simp_all add: names_only_def)
  ultimately show ?thesis by simp
qed

lemma candidate_files_version:
  "f \<in> set (candidates e) \<Longrightarrow> coerce e (token (filename f)) = Some (version f)"
proof (cases "scan_ok e")
  case False
  assume "f \<in> set (candidates e)"
  with False show ?thesis by (auto simp: scan_ok_def candidates_def split: sum.splits)
next
  case True
  assume "f \<in> set (candidates e)"
  then obtain n where "is_candidate (coerce e) n" "f = file_of (coerce e) (dir e) n"
    using scan_candidates(1)[OF True] by auto
  then show ?thesis using candidate_version[of "coerce e" n] by (simp add: file_of_def)
qed

lemma pending_subset: "set (pending e h) \<subseteq> {f \<in> set (candidates e). after_latest h f}"
  by (auto simp: pending_def)

lemma executed_pending: "set (executed (snd (migrate e h))) \<subseteq> set (pending e h)"
  using migrate_executed[of e h] by (auto dest: in_set_takeD)

lemma scanned_state_writes: "history_writes (scanned_state e h) = []"
  by (simp add: scanned_state_def Let_def history_writes_log_call history_writes_def
        initial_state_def comp_def)

lemma execute_writes:
  "history_writes (snd (execute e rank fs st)) =
     history_writes (snd (run_files e rank (sort_key version fs)
       (log_call [Str (''Executing '' @ show_nat (length fs) @ '' migration files'')] st)))"
  by (simp add: execute_def history_writes_log_call split: prod.splits outcome.splits)

lemma migrate_writes:
  assumes "ready e" "unlocked h"
  shows "history_writes (snd (migrate e h)) =
     history_writes (snd (run_files e (base_rank h) (pending e h) (scanned_state e h)))"
  using assms
  by (simp add: migrate_ready execute_writes scanned_state_eq) (simp add: pending_def)

lemma ranked_snoc:
  "ranked_from rank (recs @ [r]) =
     (ranked_from rank recs \<and> installed_rank r = (increment ^^ Suc (length recs)) rank)"
  by (induction recs arbitrary: rank) (simp_all add: funpow_swap1)

lemma rejecting_env_fields [simp]:
  "req (rejecting_env reason) = None" "dir (rejecting_env reason) = ''/m''"
  "dir_exists (rejecting_env reason)" "backend_ok (rejecting_env reason)"
  "dryrun (rejecting_env reason) = False" "forceWait (rejecting_env reason) = False"
  "scripts (rejecting_env reason) = rejecting_scripts reason"
  "username (rejecting_env reason) = ''ci''"
  "file_md5 (rejecting_env reason) = (\<lambda>p. ''d41d8cd9'')" "node_major (rejecting_env reason) = 16"
  "scan (rejecting_env reason) = scan demo_env"
  by (simp_all add: rejecting_env_def demo_env_def scan_def filenames_def)

lemma rejecting_ready: "ready (rejecting_env reason)"
  by (simp add: ready_def preloaded_def scan_ok_def demo_scan)

lemma rejecting_pending: "pending (rejecting_env reason) [] = pending demo_env []"
  by (simp add: pending_def rejecting_ready demo_ready candidates_def)

lemmas rejecting_scripts_eval = rejecting_scripts_def demo_scripts_eval

text \<open>
  A rejection whose reason is falsy (\<^verbatim>\<open>Promise.reject()\<close>, or the empty string) does
  not pass the test of line 192: the migration is recorded as a success and the run goes on.
\<close>

lemma falsy_rejection_passes:
  "fst (migrate (rejecting_env None) []) = Returned"
  "map (\<lambda>entry. (fst entry, success (snd entry))) (history (snd (migrate (rejecting_env None) [])))
     = [(''fireway/0-1.0.0-first'', True), (''fireway/1-1.1.0-b'', True),
        (''fireway/2-1.2.0-c'', True)]"
  "fst (migrate (rejecting_env (Some [])) []) = Returned"
  "map (\<lambda>entry. (fst entry, success (snd entry)))
       (history (snd (migrate (rejecting_env (Some [])) [])))
     = [(''fireway/0-1.0.0-first'', True), (''fireway/1-1.1.0-b'', True),
        (''fireway/2-1.2.0-c'', True)]"
  by (simp_all add: run_eval demo_scan rejecting_scripts_eval)

section \<open>The claims\<close>

text \<open>
  C2. For every invocation of \<^verbatim>\<open>migrate\<close>: if the latest history record exists and its
  success flag is false, the run aborts by throwing an error, with zero migrations executed
  and no new history record written, whatever candidate files are present. When the run gets
  as far as reading the history, the error is the one of line 345, which names the version
  and the script of that record.
\<close>

theorem failed_latest_aborts:
  assumes "get_latest h = Some latest" and "\<not> success latest"
  shows "(\<exists>err. fst (migrate e h) = Threw err)
       \<and> (ready e \<longrightarrow> fst (migrate e h) = Threw (PreviousFailed (version latest) (script latest)))
       \<and> executed (snd (migrate e h)) = []
       \<and> executedFiles (stats (snd (migrate e h))) = 0
       \<and> history (snd (migrate e h)) = h
       \<and> data (snd (migrate e h)) = []"
proof (cases "ready e")
  case True
  show ?thesis using migrate_locked[OF True assms] by simp
next
  case False
  show ?thesis using migrate_not_ready[OF False, of h] False by simp
qed

theorem failed_latest_aborts_witness:
  "get_latest locked_history = Some failed_record \<and> \<not> success failed_record
   \<and> ready demo_env
   \<and> fst (migrate demo_env locked_history) = Threw (PreviousFailed (1, 0, 0) ''v1__first.js'')
   \<and> executed (snd (migrate demo_env locked_history)) = []
   \<and> history (snd (migrate demo_env locked_history)) = locked_history"
proof -
  have a: "get_latest locked_history = Some failed_record"
    by (simp add: get_latest_def locked_history_def)
  have b: "\<not> success failed_record" by (simp add: failed_record_def)
  have d: "version failed_record = (1, 0, 0)" "script failed_record = ''v1__first.js''"
    by (simp_all add: failed_record_def)
  show ?thesis
    using failed_latest_aborts[OF a b, of demo_env] a b d demo_ready by simp
qed




text \<open>
  C9, as amended. For every filename of the listing that does not begin with a dot and whose
  version token is coercible: if no description token is present (the split has no second
  part, or an empty one), the run aborts by throwing, with nothing executed or recorded; if
  one is present and the scan succeeds, the parser returns the coerced version together
  with a description equal to the second part of the split of the filename at \<^verbatim>\<open>__\<close>,
  minus that part's extension. When the filename has exactly one separator, this is the
  filename minus the version token and the separator, minus the extension.
\<close>

theorem filename_parsing:
  assumes "name \<in> set (filenames e)" and "take 1 name \<noteq> ''.''"
    and "coerce e (token name) = Some v"
  shows "(\<not> described name \<longrightarrow>
            (\<exists>err. fst (migrate e h) = Threw err) \<and> executed (snd (migrate e h)) = []
            \<and> history (snd (migrate e h)) = h)
       \<and> (described name \<and> scan_ok e \<longrightarrow>
            \<lparr>version = v,
             description = basename (split_sep [] name ! 1) (extname (split_sep [] name ! 1)),
             filename = name, path = path_join (dir e) name\<rparr> \<in> set (candidates e))
       \<and> (length (split_sep [] name) = 2 \<longrightarrow>
            name = token name @ ''__''
                   @ basename (split_sep [] name ! 1) (extname (split_sep [] name ! 1))
                   @ extname (split_sep [] name ! 1))"
proof (intro conjI impI)
  assume nd: "\<not> described name"
  then have m: "malformed (coerce e) name" using assms by (simp add: malformed_def)
  have "\<not> scan_ok e" using scan_candidates(2) m assms(1) by blast
  then have nr: "\<not> ready e" by (simp add: ready_def)
  show "\<exists>err. fst (migrate e h) = Threw err" using migrate_not_ready(1)[OF nr] .
  show "executed (snd (migrate e h)) = []" using migrate_not_ready(2)[OF nr] .
  show "history (snd (migrate e h)) = h" using migrate_not_ready(3)[OF nr] .
next
  assume a: "described name \<and> scan_ok e"
  then have c: "is_candidate (coerce e) name" using assms by (simp add: is_candidate_def)
  have "file_of (coerce e) (dir e) name \<in> set (candidates e)"
    using scan_candidates(1)[of e] a c assms(1) by simp
  then show "\<lparr>version = v,
             description = basename (split_sep [] name ! 1) (extname (split_sep [] name ! 1)),
             filename = name, path = path_join (dir e) name\<rparr> \<in> set (candidates e)"
    using a assms(3) by (simp add: file_of_def described_second)
next
  assume "length (split_sep [] name) = 2"
  from two_parts[OF this] show "name = token name @ ''__''
                   @ basename (split_sep [] name ! 1) (extname (split_sep [] name ! 1))
                   @ extname (split_sep [] name ! 1)"
    by (simp add: basename_extname)
qed

theorem filename_parsing_witness:
  "''1.0.0__add_users.js'' \<in> set (filenames (listing_env [''1.0.0__add_users.js'']))
   \<and> take 1 ''1.0.0__add_users.js'' \<noteq> ''.''
   \<and> coerce (listing_env [''1.0.0__add_users.js'']) (token ''1.0.0__add_users.js'') = Some (1, 0, 0)
   \<and> described ''1.0.0__add_users.js'' \<and> scan_ok (listing_env [''1.0.0__add_users.js''])
   \<and> length (split_sep [] ''1.0.0__add_users.js'') = 2
   \<and> \<lparr>version = (1, 0, 0), description = ''add_users'', filename = ''1.0.0__add_users.js'',
       path = ''/m/1.0.0__add_users.js''\<rparr> \<in> set (candidates (listing_env [''1.0.0__add_users.js'']))
   \<and> ''1.0.0'' \<in> set (filenames (listing_env [''1.0.0'']))
   \<and> coerce (listing_env [''1.0.0'']) (token ''1.0.0'') = Some (1, 0, 0)
   \<and> \<not> described ''1.0.0''
   \<and> fst (migrate (listing_env [''1.0.0'']) []) = Threw (BadFilename ''1.0.0'')"
proof -
  let ?n = "''1.0.0__add_users.js''"
  have c: "semver_coerce ''1.0.0'' = Some (1, 0, 0)" by (simp add: coerce_eval)
  have a: "?n \<in> set (filenames (listing_env [?n]))" "take 1 ?n \<noteq> ''.''"
    "coerce (listing_env [?n]) (token ?n) = Some (1, 0, 0)"
    by (simp_all add: token_def c)
  have b: "described ?n" "scan_ok (listing_env [?n])" "length (split_sep [] ?n) = 2"
    by (simp_all add: name_eval scan_ok_def users_scan)
  have a': "''1.0.0'' \<in> set (filenames (listing_env [''1.0.0'']))" "take 1 ''1.0.0'' \<noteq> ''.''"
    "coerce (listing_env [''1.0.0'']) (token ''1.0.0'') = Some (1, 0, 0)"
    by (simp_all add: token_def c)
  have b': "\<not> described ''1.0.0''" by (simp add: name_eval)
  have t: "fst (migrate (listing_env [''1.0.0'']) []) = Threw (BadFilename ''1.0.0'')"
    by (simp add: migrate_scan_failed users_scan)
  show ?thesis
    using filename_parsing[OF a, of "[]"] filename_parsing[OF a', of "[]"] a b a' b' t
    by (simp add: path_join_def basename_def extname_def)
qed

text \<open>
  C9 as stated fails: for \<^verbatim>\<open>1.0.0__add__users.js\<close> the description is \<^verbatim>\<open>add\<close>, the
  second part of the split, and not \<^verbatim>\<open>add__users\<close>.
\<close>

theorem description_is_second_part:
  "coerce (listing_env [''1.0.0__add__users.js'']) (token ''1.0.0__add__users.js'') = Some (1, 0, 0)
   \<and> described ''1.0.0__add__users.js''
   \<and> map description (candidates (listing_env [''1.0.0__add__users.js''])) = [''add'']
   \<and> ''add'' \<noteq> ''add__users''"
  by (simp add: candidates_def users_scan name_eval coerce_eval)




text \<open>
  C4. In a dry run the commit of every batch of the run's client only empties the queue of
  deferred callbacks: it returns the empty result and sends nothing to the backend. So no
  history record is persisted: the history the run leaves is the one it found, and when the
  scripts write through the client they are given, no write reaches the backend at all.
  Running the same directory again from the state the first dry run left therefore gives the
  same result and the same stats.
\<close>

theorem dry_run_changes_nothing:
  assumes "dryrun (e :: 'd env)"
  shows "(\<forall>b st. claimed b \<longrightarrow>
            commit (dryrun e) b st = fold fn_call (fireway_queue b) st
            \<and> commit_result (dryrun e) b = []
            \<and> history (commit (dryrun e) b st) = history st
            \<and> data (commit (dryrun e) b (st :: 'd run_state)) = data st)
       \<and> history (snd (migrate e h)) = h
       \<and> ((\<forall>p m a. scripts e p = Inr m \<and> a \<in> set (actions m) \<longrightarrow> client_of a = Given)
            \<longrightarrow> data (snd (migrate e h)) = [])
       \<and> migrate e (history (snd (migrate e h))) = migrate e h
       \<and> stats (snd (migrate e (history (snd (migrate e h))))) = stats (snd (migrate e h))"
proof -
  have a: "\<forall>b st. claimed b \<longrightarrow>
            commit (dryrun e) b st = fold fn_call (fireway_queue b) st
            \<and> commit_result (dryrun e) b = []
            \<and> history (commit (dryrun e) b st) = history st
            \<and> data (commit (dryrun e) b (st :: 'd run_state)) = data st"
    using assms by (simp add: commit_def commit_result_def Let_def)
  have h: "history (snd (migrate e h)) = h" using assms by (rule migrate_history_dry)
  have d: "(\<forall>p m a. scripts e p = Inr m \<and> a \<in> set (actions m) \<longrightarrow> client_of a = Given)
            \<longrightarrow> data (snd (migrate e h)) = []"
  proof
    assume g: "\<forall>p m a. scripts e p = Inr m \<and> a \<in> set (actions m) \<longrightarrow> client_of a = Given"
    have "\<forall>p m. scripts e p = Inr m \<longrightarrow> concat (map (sent (dryrun e)) (actions m)) = []"
      using g assms by (auto simp: sent_dry_given)
    then show "data (snd (migrate e h)) = []" by (rule migrate_data)
  qed
  from a h d show ?thesis by simp
qed

theorem dry_run_changes_nothing_witness:
  "dryrun dry_env
   \<and> list_all (\<lambda>a. client_of a = Given)
        (actions first_script @ actions batch_script @ actions small_script)
   \<and> fst (migrate dry_env []) = Returned
   \<and> history (snd (migrate dry_env [])) = []
   \<and> data (snd (migrate dry_env [])) = []
   \<and> stats (snd (migrate dry_env [])) =
        \<lparr>scannedFiles = 3, executedFiles = 3, created = 1, set' = 4, updated = 1, deleted = 2,
         added = 1, frozen = False\<rparr>
   \<and> stats (snd (migrate dry_env (history (snd (migrate dry_env []))))) =
        stats (snd (migrate dry_env []))"
proof -
  have d: "dryrun dry_env" by simp
  have g: "\<forall>p m a. scripts dry_env p = Inr m \<and> a \<in> set (actions m) \<longrightarrow> client_of a = Given"
    using demo_scripts_given by auto
  have l: "list_all (\<lambda>a. client_of a = Given)
        (actions first_script @ actions batch_script @ actions small_script)"
    by (simp add: demo_scripts_eval)
  have r: "fst (migrate dry_env []) = Returned"
    by (simp add: run_eval demo_scan demo_scripts_eval)
  have s: "stats (snd (migrate dry_env [])) =
        \<lparr>scannedFiles = 3, executedFiles = 3, created = 1, set' = 4, updated = 1, deleted = 2,
         added = 1, frozen = False\<rparr>"
    by (simp add: run_eval demo_scan demo_scripts_eval)
  from dry_run_changes_nothing[OF d, of "[]"] g
  have "history (snd (migrate dry_env [])) = []" "data (snd (migrate dry_env [])) = []"
    "stats (snd (migrate dry_env (history (snd (migrate dry_env []))))) =
        stats (snd (migrate dry_env []))"
    by simp_all
  with d l r s show ?thesis by simp
qed



text \<open>
  C6, as amended. An operation queued on a write batch of the run's client changes the batch
  only: its callback is put on the queue and its stat increment and log line are deferred.
  They are performed when the commit of the batch runs, in a dry run as in a real one, the
  dry run suppressing only the sending of the operations to the backend. A batch that is
  never committed contributes nothing.
\<close>

theorem batch_counted_at_commit:
  "fold (\<lambda>w. batch_method w False) (ws :: 'd doc op list) (new_batch Given) =
      \<lparr>claimed = True, fireway_queue = ws, ops = ws\<rparr>
   \<and> exec_action dry (BatchCall Given us False) (st :: 'd run_state) = st
   \<and> (\<not> frozen (stats st) \<longrightarrow>
        stats (exec_action dry (BatchCall Given us True) st) =
          fold count_op (map (map_op UserDoc) us) (stats st))
   \<and> logged (exec_action dry (BatchCall Given us True) st) =
        logged st @ map log_op (map (map_op UserDoc) us)
   \<and> data (exec_action dry (BatchCall Given us True) st) =
        data st @ (if dry then [] else map (map_op UserDoc) us)
   \<and> history (exec_action dry (BatchCall Given us True) st) = history st"
proof -
  have "exec_action dry (BatchCall Given us False) st = st"
    by (simp add: batch_call_def Let_def)
  then show ?thesis
    using batch_call_fields(1,2,5,6)[of dry Given us True st]
    by (simp add: batch_of_many)
qed

theorem batch_counted_at_commit_witness:
  "\<not> frozen (stats (initial_state [] :: nat run_state))
   \<and> stats (exec_action True (BatchCall Given [OpSet ''users/c'' (6 :: nat) False, OpDelete ''users/a''] True)
              (initial_state [])) = initial_stats\<lparr>set' := 1, deleted := 1\<rparr>
   \<and> data (exec_action True (BatchCall Given [OpSet ''users/c'' (6 :: nat) False, OpDelete ''users/a''] True)
              (initial_state [])) = []
   \<and> exec_action True (BatchCall Given [OpCreate ''users/d'' (7 :: nat)] False) (initial_state []) =
        initial_state []"
proof -
  let ?st = "initial_state [] :: nat run_state"
  have nf: "\<not> frozen (stats ?st)" by (simp add: initial_stats_def)
  from batch_counted_at_commit[of "[]" True "[OpSet ''users/c'' (6 :: nat) False, OpDelete ''users/a'']" ?st] nf
  have a: "stats (exec_action True (BatchCall Given [OpSet ''users/c'' (6 :: nat) False, OpDelete ''users/a''] True)
              ?st) = initial_stats\<lparr>set' := 1, deleted := 1\<rparr>"
    and b: "data (exec_action True (BatchCall Given [OpSet ''users/c'' (6 :: nat) False, OpDelete ''users/a''] True)
              ?st) = []"
    by (simp_all add: initial_stats_def)
  from batch_counted_at_commit[of "[]" True "[OpCreate ''users/d'' (7 :: nat)]" ?st]
  have c: "exec_action True (BatchCall Given [OpCreate ''users/d'' (7 :: nat)] False) ?st = ?st"
    by simp
  from nf a b c show ?thesis by simp
qed

text \<open>
  C6 as stated fails: in a dry run the migration commits a batch of one set and one delete,
  nothing reaches the backend, and the stats count one set and one delete (the batch left
  uncommitted counts nothing).
\<close>

theorem dry_run_batch_is_counted:
  "dryrun dry_batch_env
   \<and> scripts dry_batch_env ''/m/1.1__b.js'' = Inr batch_script
   \<and> actions batch_script =
        [BatchCall Given [OpSet ''users/c'' 6 False, OpDelete ''users/a''] True,
         BatchCall Given [OpCreate ''users/d'' 7] False]
   \<and> fst (migrate dry_batch_env []) = Returned
   \<and> data (snd (migrate dry_batch_env [])) = []
   \<and> stats (snd (migrate dry_batch_env [])) =
        \<lparr>scannedFiles = 1, executedFiles = 1, created = 0, set' = 1, updated = 0, deleted = 1,
         added = 0, frozen = False\<rparr>"
  by (simp add: run_eval batch_only_scan demo_scripts_eval)

text \<open>
  C10. The version the engine works with is the coerced version of the filename's version
  token, not the token: the tokens \<^verbatim>\<open>1\<close>, \<^verbatim>\<open>1.0\<close> and \<^verbatim>\<open>v1.0.0\<close> all coerce to
  1.0.0, and two candidates whose tokens coerce to the same version are rejected as
  duplicates, whatever the tokens are. Every candidate file carries the coerced version of
  its token; the migrations executed are those whose coerced version is greater than the
  latest recorded one, in ascending order of the coerced versions; and every record appended
  to the history stores the coerced version of its script's token, whose text
  (\<open>version_string\<close>, also part of the document name) can differ from the token.
\<close>

theorem coerced_version_throughout:
  "semver_coerce ''1'' = Some (1, 0, 0) \<and> semver_coerce ''1.0'' = Some (1, 0, 0)
   \<and> semver_coerce ''v1.0.0'' = Some (1, 0, 0) \<and> version_string (1, 0, 0) = ''1.0.0''
   \<and> (is_candidate co a \<and> is_candidate co b \<and> co (token a) = co (token b) \<longrightarrow>
         snd (parse_files co d Map.empty [a, b]) = Inl (SameVersion b a))
   \<and> snd (scan (listing_env [''1__a.js'', ''1.0__b.js''])) = Inl (SameVersion ''1.0__b.js'' ''1__a.js'')
   \<and> snd (scan (listing_env [''1__a.js'', ''v1.0.0__c.js''])) =
         Inl (SameVersion ''v1.0.0__c.js'' ''1__a.js'')
   \<and> snd (scan (listing_env [''1.0__b.js'', ''v1.0.0__c.js''])) =
         Inl (SameVersion ''v1.0.0__c.js'' ''1.0__b.js'')
   \<and> (\<forall>f\<in>set (candidates e). coerce e (token (filename f)) = Some (version f))
   \<and> (\<forall>f\<in>set (executed (snd (migrate e h))).
         coerce e (token (filename f)) = Some (version f) \<and> after_latest h f)
   \<and> sorted_wrt (\<lambda>f g. version f < version g) (executed (snd (migrate e h)))
   \<and> (\<exists>recs. history (snd (migrate e h)) = append_records recs h
         \<and> list_all (\<lambda>r. coerce e (token (script r)) = Some (version r)) recs)"
proof -
  have c: "semver_coerce ''1'' = Some (1, 0, 0)" "semver_coerce ''1.0'' = Some (1, 0, 0)"
    "semver_coerce ''v1.0.0'' = Some (1, 0, 0)"
    by (simp_all add: coerce_eval)
  have v: "version_string (1, 0, 0) = ''1.0.0''"
    by (simp add: version_string_def show_nat.simps digit_char_def)
  have s: "snd (scan (listing_env [''1__a.js'', ''1.0__b.js''])) = Inl (SameVersion ''1.0__b.js'' ''1__a.js'')"
    "snd (scan (listing_env [''1__a.js'', ''v1.0.0__c.js''])) =
         Inl (SameVersion ''v1.0.0__c.js'' ''1__a.js'')"
    "snd (scan (listing_env [''1.0__b.js'', ''v1.0.0__c.js''])) =
         Inl (SameVersion ''v1.0.0__c.js'' ''1.0__b.js'')"
    by (simp_all add: scan_eval c)
  have ex: "\<forall>f\<in>set (executed (snd (migrate e h))).
         coerce e (token (filename f)) = Some (version f) \<and> after_latest h f"
    using executed_pending[of e h] pending_subset[of e h] candidate_files_version[of _ e]
    by blast
  obtain n where n: "executed (snd (migrate e h)) = take n (pending e h)"
    using migrate_executed[of e h] by blast
  have so: "sorted_wrt (\<lambda>f g. version f < version g) (executed (snd (migrate e h)))"
    unfolding n using pending_sorted[of e h] by (rule sorted_wrt_take)
  obtain recs where r: "history (snd (migrate e h)) = append_records recs h"
    "\<forall>r\<in>set recs. \<exists>f\<in>set (pending e h). version r = version f
             \<and> description r = description f \<and> script r = filename f"
    using migrate_history[of e h] by blast
  have "list_all (\<lambda>r. coerce e (token (script r)) = Some (version r)) recs"
    unfolding list_all_iff
  proof
    fix x assume "x \<in> set recs"
    then obtain f where "f \<in> set (pending e h)" "version x = version f" "script x = filename f"
      using r(2) by blast
    moreover from this have "f \<in> set (candidates e)" using pending_subset[of e h] by blast
    ultimately show "coerce e (token (script x)) = Some (version x)"
      using candidate_files_version[of f e] by simp
  qed
  with r(1) have rec: "\<exists>recs. history (snd (migrate e h)) = append_records recs h
         \<and> list_all (\<lambda>r. coerce e (token (script r)) = Some (version r)) recs" by blast
  show ?thesis
    using c v s ex so rec two_candidates_clash[of co a b d] candidate_files_version[of _ e]
    by simp
qed

theorem coerced_version_throughout_witness:
  "is_candidate semver_coerce ''1__a.js'' \<and> is_candidate semver_coerce ''v1.0.0__c.js''
   \<and> semver_coerce (token ''1__a.js'') = semver_coerce (token ''v1.0.0__c.js'')
   \<and> snd (parse_files semver_coerce ''/m'' Map.empty [''1__a.js'', ''v1.0.0__c.js'']) =
        Inl (SameVersion ''v1.0.0__c.js'' ''1__a.js'')
   \<and> map (\<lambda>f. (token (filename f), version_string (version f))) (executed (snd (migrate demo_env []))) =
        [(''v1'', ''1.0.0''), (''1.1'', ''1.1.0''), (''1.2.0'', ''1.2.0'')]
   \<and> list_all (\<lambda>f. coerce demo_env (token (filename f)) = Some (version f))
        (executed (snd (migrate demo_env [])))
   \<and> map (\<lambda>entry. (fst entry, script (snd entry), version_string (version (snd entry))))
        (history (snd (migrate demo_env []))) =
        [(''fireway/0-1.0.0-first'', ''v1__first.js'', ''1.0.0''),
         (''fireway/1-1.1.0-b'', ''1.1__b.js'', ''1.1.0''),
         (''fireway/2-1.2.0-c'', ''1.2.0__c.js'', ''1.2.0'')]"
proof -
  have c: "semver_coerce ''1'' = Some (1, 0, 0)" "semver_coerce ''v1.0.0'' = Some (1, 0, 0)"
    by (simp_all add: coerce_eval)
  have a: "is_candidate semver_coerce ''1__a.js''" "is_candidate semver_coerce ''v1.0.0__c.js''"
    "semver_coerce (token ''1__a.js'') = semver_coerce (token ''v1.0.0__c.js'')"
    by (simp_all add: name_eval c)
  have ex: "executed (snd (migrate demo_env [])) = pending demo_env []"
    by (simp add: run_eval demo_scan demo_scripts_eval demo_pending)
  have hi: "map (\<lambda>entry. (fst entry, script (snd entry), version_string (version (snd entry))))
        (history (snd (migrate demo_env []))) =
        [(''fireway/0-1.0.0-first'', ''v1__first.js'', ''1.0.0''),
         (''fireway/1-1.1.0-b'', ''1.1__b.js'', ''1.1.0''),
         (''fireway/2-1.2.0-c'', ''1.2.0__c.js'', ''1.2.0'')]"
    by (simp add: run_eval demo_scan demo_scripts_eval)
  from coerced_version_throughout[of semver_coerce "''1__a.js''" "''v1.0.0__c.js''" "''/m''" demo_env "[]"] a
  have p: "snd (parse_files semver_coerce ''/m'' Map.empty [''1__a.js'', ''v1.0.0__c.js'']) =
        Inl (SameVersion ''v1.0.0__c.js'' ''1__a.js'')"
    and l: "\<forall>f\<in>set (executed (snd (migrate demo_env []))).
         coerce demo_env (token (filename f)) = Some (version f) \<and> after_latest [] f"
    by blast+
  have "list_all (\<lambda>f. coerce demo_env (token (filename f)) = Some (version f))
        (executed (snd (migrate demo_env [])))"
    using l by (simp add: list_all_iff)
  moreover have "map (\<lambda>f. (token (filename f), version_string (version f))) (executed (snd (migrate demo_env []))) =
        [(''v1'', ''1.0.0''), (''1.1'', ''1.1.0''), (''1.2.0'', ''1.2.0'')]"
    by (simp add: ex demo_pending token_def version_string_def show_nat.simps digit_char_def)
  ultimately show ?thesis using a p hi by simp
qed

text \<open>
  C7, as amended. While the increments of the rank are exact (\<open>exact_ranks\<close>: the latest
  rank the run found is at least \<open>- 2 ^ 53\<close> and, with one more for each pending migration,
  at most \<open>2 ^ 53\<close>), the records a run appends to the history have consecutive ranks that
  start one above the rank of the latest record the run found (at 0 when the history is
  empty), and the last one appended is the latest record of the resulting history, so that
  the next run goes on from it. A history written by the engine alone (\<open>engine_history\<close>:
  the ranks are 0, 1, 2, ... in order and every document is named after its record) is
  extended at its end and remains such a history: the ranks stay gap-free, strictly
  increasing and free of duplicates over any sequence of such runs.
\<close>

theorem installed_ranks_consecutive:
  assumes "exact_ranks (base_rank h) (length (pending e h))"
  shows "\<exists>recs. history (snd (migrate e h)) = append_records recs h
      \<and> (\<forall>i<length recs. installed_rank (recs ! i) = base_rank h + 1 + int i)
      \<and> (h = [] \<and> recs \<noteq> [] \<longrightarrow> installed_rank (hd recs) = 0)
      \<and> (recs \<noteq> [] \<longrightarrow> get_latest (history (snd (migrate e h))) = Some (last recs))
      \<and> (engine_history h \<longrightarrow>
            history (snd (migrate e h)) = h @ map (\<lambda>r. (record_key r, r)) recs
            \<and> engine_history (history (snd (migrate e h))))"
proof -
  obtain recs where r: "history (snd (migrate e h)) = append_records recs h"
      "ranked_from (base_rank h) recs" "length recs \<le> length (pending e h)"
    using migrate_history[of e h] by blast
  have "exact_ranks (base_rank h) (length recs)"
    using exact_ranks_less[OF assms r(3)] .
  then have c0: "consecutive_from (base_rank h + 1) recs"
    using r(2) by (simp add: ranked_exact)
  have a: "\<forall>i<length recs. installed_rank (recs ! i) = base_rank h + 1 + int i"
    using consecutive_nth[OF c0] by simp
  have b: "h = [] \<and> recs \<noteq> [] \<longrightarrow> installed_rank (hd recs) = 0"
  proof
    assume hr: "h = [] \<and> recs \<noteq> []"
    then have "installed_rank (recs ! 0) = base_rank h + 1 + int 0" using a by blast
    with hr show "installed_rank (hd recs) = 0"
      by (simp add: hd_conv_nth base_rank_def get_latest_def)
  qed
  have c: "recs \<noteq> [] \<longrightarrow> get_latest (history (snd (migrate e h))) = Some (last recs)"
    using latest_append_records[OF ranks_below_next c0] r(1) by simp
  have d: "engine_history h \<longrightarrow>
            history (snd (migrate e h)) = h @ map (\<lambda>r. (record_key r, r)) recs
            \<and> engine_history (history (snd (migrate e h)))"
  proof
    assume e: "engine_history h"
    then have "consecutive_from (int (length h)) recs"
      using c0 by (simp add: engine_history_base)
    from engine_history_append[OF e this] r(1)
    show "history (snd (migrate e h)) = h @ map (\<lambda>r. (record_key r, r)) recs
            \<and> engine_history (history (snd (migrate e h)))" by simp
  qed
  from r(1) a b c d show ?thesis by blast
qed

theorem installed_ranks_consecutive_witness:
  "exact_ranks (base_rank []) (length (pending demo_env []))
   \<and> engine_history []
   \<and> map (\<lambda>entry. installed_rank (snd entry)) (history (snd (migrate demo_env []))) = [0, 1, 2]
   \<and> engine_history (history (snd (migrate demo_env [])))"
proof -
  have e: "engine_history []" by (simp add: engine_history_def)
  have x: "exact_ranks (base_rank []) (length (pending demo_env []))"
    by (simp add: exact_ranks_def base_rank_def get_latest_def demo_pending)
  obtain recs where "engine_history [] \<longrightarrow>
      history (snd (migrate demo_env [])) = [] @ map (\<lambda>r. (record_key r, r)) recs
            \<and> engine_history (history (snd (migrate demo_env [])))"
    using installed_ranks_consecutive[OF x] by blast
  with e have "engine_history (history (snd (migrate demo_env [])))" by blast
  moreover have "map (\<lambda>entry. installed_rank (snd entry)) (history (snd (migrate demo_env []))) = [0, 1, 2]"
    using arg_cong[OF demo_history_ranks, of "map (\<lambda>t. fst (snd t))"] by (simp add: comp_def)
  ultimately show ?thesis using e x by simp
qed

text \<open>
  C7 as stated fails: the latest record of the history has the rank \<open>2 ^ 53\<close>, of which
  \<^verbatim>\<open>installed_rank += 1\<close> makes \<open>2 ^ 53\<close> again, and the three records the run appends
  all repeat that rank.
\<close>

theorem rank_repeats_beyond_exact_range:
  "get_latest far_history = Some far_record
   \<and> installed_rank far_record = 9007199254740992
   \<and> map (\<lambda>entry. (fst entry, installed_rank (snd entry)))
         (history (snd (migrate demo_env far_history))) =
       [(''fireway/9007199254740992-0.9.0-init'', 9007199254740992),
        (''fireway/9007199254740992-1.0.0-first'', 9007199254740992),
        (''fireway/9007199254740992-1.1.0-b'', 9007199254740992),
        (''fireway/9007199254740992-1.2.0-c'', 9007199254740992)]"
  by (simp add: run_eval demo_scan demo_scripts_eval far_history_def far_record_def old_record_def)

text \<open>
  C3, as amended. Take a run that reaches the loop, and the first pending migration whose
  entry point fails, by throwing or by an unhandled asynchronous error captured during its
  window with a truthy reason (\<open>succeeds\<close> is false), the migrations before it having
  succeeded and its tracker returning (it does unless \<^verbatim>\<open>forceWait\<close> waits for a handle
  that never settles). The engine has then issued one history write for each migration
  executed, in order, the last of them for that migration and with success=false
  (\<open>history_writes\<close>: the records given to the wrapper of \<^verbatim>\<open>set\<close> on the run's client,
  in a dry run too), and the run stops with the error `Stopped at first failure'; no later
  migration is attempted. When the run is not a dry run that record is stored, after one
  successful record for each earlier migration; in a dry run the write is suppressed like
  every other write of the run's client and the history is unchanged. The rank of the
  record is the latest rank found, incremented once for each migration executed; while
  these increments are exact it is that rank plus their number, and the record stored is
  the latest record of the history the run leaves.
\<close>

theorem first_failure_recorded:
  assumes "ready e" and "unlocked h" and "pending e h = pre @ f # post"
    and "\<forall>g\<in>set pre. \<exists>m'. scripts e (path g) = Inr m' \<and> \<not> blocks e m' \<and> succeeds m'"
    and "scripts e (path f) = Inr m" and "\<not> succeeds m" and "\<not> blocks e m"
  shows "(let r = history_entry e ((increment ^^ Suc (length pre)) (base_rank h)) f m False
          in fst (migrate e h) = Threw StoppedAtFirstFailure
           \<and> executed (snd (migrate e h)) = pre @ [f]
           \<and> (\<exists>recs. map script recs = map filename pre \<and> list_all success recs
                 \<and> history_writes (snd (migrate e h)) = recs @ [r]
                 \<and> history (snd (migrate e h)) =
                     (if dryrun e then h else append_records (recs @ [r]) h))
           \<and> script r = filename f \<and> version r = version f \<and> \<not> success r
           \<and> (exact_ranks (base_rank h) (Suc (length pre)) \<longrightarrow>
                 installed_rank r = base_rank h + 1 + int (length pre)
                 \<and> (\<not> dryrun e \<longrightarrow> get_latest (history (snd (migrate e h))) = Some r)))"
proof -
  let ?rank = "(increment ^^ length pre) (base_rank h)"
  let ?r = "history_entry e ((increment ^^ Suc (length pre)) (base_rank h)) f m False"
  obtain st' recs where p:
      "run_files e (base_rank h) (pre @ f # post) (scanned_state e h) = run_files e ?rank (f # post) st'"
      "executed st' = executed (scanned_state e h) @ pre"
      "history st' = append_records (if dryrun e then [] else recs) (history (scanned_state e h))"
      "history_writes st' = history_writes (scanned_state e h) @ recs"
      "length recs = length pre" "list_all success recs" "map script recs = map filename pre"
      "ranked_from (base_rank h) recs"
    using passed_prefix[OF assms(4), of "base_rank h" "f # post" "scanned_state e h"] by auto
  have rk: "increment ?rank = (increment ^^ Suc (length pre)) (base_rank h)" by simp
  have f: "run_files e ?rank (f # post) st' =
      (Threw StoppedAtFirstFailure,
       upload e ((increment ^^ Suc (length pre)) (base_rank h)) f m False (invoke e f m st'))"
    using run_files_failed[OF assms(5) assms(7) assms(6), of ?rank post st'] by (simp only: rk)
  have res: "fst (migrate e h) = Threw StoppedAtFirstFailure"
    using migrate_runs(1)[OF assms(1,2)] assms(3) p(1) f by simp
  have ex: "executed (snd (migrate e h)) = pre @ [f]"
    using migrate_runs(5)[OF assms(1,2)] assms(3) p(1,2) f
    by (simp add: upload_fields invoke_fields)
  have hi: "history (snd (migrate e h)) =
      (if dryrun e then h else append_records (recs @ [?r]) h)"
    using migrate_runs(3)[OF assms(1,2)] assms(3) p(1,3) f
    by (simp add: upload_fields invoke_fields append_records_def record_key_entry)
  have wr: "history_writes (snd (migrate e h)) = recs @ [?r]"
    using migrate_writes[OF assms(1,2)] assms(3) p(1,4) f
    by (simp add: upload_writes invoke_writes scanned_state_writes)
  have fl: "script ?r = filename f \<and> version ?r = version f \<and> \<not> success ?r"
    by (simp add: history_entry_def)
  have ir: "installed_rank ?r = (increment ^^ Suc (length pre)) (base_rank h)"
    by (simp add: history_entry_def)
  have xr: "exact_ranks (base_rank h) (Suc (length pre)) \<longrightarrow>
                 installed_rank ?r = base_rank h + 1 + int (length pre)
                 \<and> (\<not> dryrun e \<longrightarrow> get_latest (history (snd (migrate e h))) = Some ?r)"
  proof
    assume x: "exact_ranks (base_rank h) (Suc (length pre))"
    have a: "installed_rank ?r = base_rank h + 1 + int (length pre)"
      using funpow_increment_exact[OF x] ir by simp
    have "ranked_from (base_rank h) (recs @ [?r])"
      using p(5,8) ir by (simp only: ranked_snoc)
    moreover have "exact_ranks (base_rank h) (length (recs @ [?r]))" using x p(5) by simp
    ultimately have c: "consecutive_from (base_rank h + 1) (recs @ [?r])"
      by (simp only: ranked_exact)
    have "\<not> dryrun e \<longrightarrow> get_latest (history (snd (migrate e h))) = Some ?r"
      using latest_append_records[OF ranks_below_next c] hi by simp
    with a show "installed_rank ?r = base_rank h + 1 + int (length pre)
                 \<and> (\<not> dryrun e \<longrightarrow> get_latest (history (snd (migrate e h))) = Some ?r)" by blast
  qed
  have "\<exists>recs. map script recs = map filename pre \<and> list_all success recs
                 \<and> history_writes (snd (migrate e h)) = recs @ [?r]
                 \<and> history (snd (migrate e h)) =
                     (if dryrun e then h else append_records (recs @ [?r]) h)"
    using p(6,7) wr hi by blast
  with res ex fl xr show ?thesis unfolding Let_def by blast
qed

theorem first_failure_recorded_witness:
  "ready failing_env \<and> unlocked []
   \<and> pending failing_env [] =
        [] @ \<lparr>version = (1, 0, 0), description = ''first'', filename = ''v1__first.js'',
               path = ''/m/v1__first.js''\<rparr>
           # [\<lparr>version = (1, 1, 0), description = ''b'', filename = ''1.1__b.js'',
                path = ''/m/1.1__b.js''\<rparr>,
              \<lparr>version = (1, 2, 0), description = ''c'', filename = ''1.2.0__c.js'',
                path = ''/m/1.2.0__c.js''\<rparr>]
   \<and> scripts failing_env ''/m/v1__first.js'' = Inr (first_script\<lparr>throws := Some ''boom''\<rparr>)
   \<and> \<not> succeeds (first_script\<lparr>throws := Some ''boom''\<rparr>)
   \<and> \<not> blocks failing_env (first_script\<lparr>throws := Some ''boom''\<rparr>)
   \<and> \<not> dryrun failing_env
   \<and> fst (migrate failing_env []) = Threw StoppedAtFirstFailure
   \<and> map filename (executed (snd (migrate failing_env []))) = [''v1__first.js'']
   \<and> map (\<lambda>r. (script r, installed_rank r, success r)) (history_writes (snd (migrate failing_env [])))
        = [(''v1__first.js'', 0, False)]
   \<and> map (\<lambda>entry. (fst entry, installed_rank (snd entry), success (snd entry)))
          (history (snd (migrate failing_env []))) = [(''fireway/0-1.0.0-first'', 0, False)]
   \<and> scripts (rejecting_env (Some ''boom'')) ''/m/v1__first.js''
        = Inr (first_script\<lparr>rejection := Some (Some ''boom'')\<rparr>)
   \<and> \<not> succeeds (first_script\<lparr>rejection := Some (Some ''boom'')\<rparr>)
   \<and> fst (migrate (rejecting_env (Some ''boom'')) []) = Threw StoppedAtFirstFailure
   \<and> map (\<lambda>r. (script r, installed_rank r, success r))
          (history_writes (snd (migrate (rejecting_env (Some ''boom'')) [])))
        = [(''v1__first.js'', 0, False)]
   \<and> dryrun dry_failing_env
   \<and> map (\<lambda>r. (script r, installed_rank r, success r))
          (history_writes (snd (migrate dry_failing_env []))) = [(''v1__first.js'', 0, False)]
   \<and> history (snd (migrate dry_failing_env [])) = []"
proof -
  let ?f = "\<lparr>version = (1, 0, 0), description = ''first'', filename = ''v1__first.js'',
             path = ''/m/v1__first.js''\<rparr>"
  let ?post = "[\<lparr>version = (1, 1, 0), description = ''b'', filename = ''1.1__b.js'',
                path = ''/m/1.1__b.js''\<rparr>,
              \<lparr>version = (1, 2, 0), description = ''c'', filename = ''1.2.0__c.js'',
                path = ''/m/1.2.0__c.js''\<rparr>]"
  let ?m = "first_script\<lparr>throws := Some ''boom''\<rparr>"
  let ?n = "first_script\<lparr>rejection := Some (Some ''boom'')\<rparr>"
  let ?e = "rejecting_env (Some ''boom'')"
  have u: "unlocked []" by (simp add: unlocked_def get_latest_def)
  have p: "pending failing_env [] = [] @ ?f # ?post" by (simp add: failing_pending demo_pending)
  have q: "pending ?e [] = [] @ ?f # ?post" by (simp add: rejecting_pending demo_pending)
  have pre: "\<forall>g\<in>set []. \<exists>m'. scripts failing_env (path g) = Inr m' \<and> \<not> blocks failing_env m'
      \<and> succeeds m'" by simp
  have pre': "\<forall>g\<in>set []. \<exists>m'. scripts ?e (path g) = Inr m' \<and> \<not> blocks ?e m'
      \<and> succeeds m'" by simp
  have s: "scripts failing_env (path ?f) = Inr ?m" by (simp add: failing_scripts_def)
  have s': "scripts ?e (path ?f) = Inr ?n" by (simp add: rejecting_scripts_def)
  have ns: "\<not> succeeds ?m" by (simp add: succeeds_def)
  have ns': "\<not> succeeds ?n" by (simp add: succeeds_def truthy_def)
  have nb: "\<not> blocks failing_env ?m" by (simp add: blocks_def)
  have nb': "\<not> blocks ?e ?n" by (simp add: blocks_def first_script_def)
  from first_failure_recorded[OF failing_ready u p pre s ns nb]
  have "fst (migrate failing_env []) = Threw StoppedAtFirstFailure
      \<and> executed (snd (migrate failing_env [])) = [] @ [?f]"
    unfolding Let_def by blast
  moreover from first_failure_recorded[OF rejecting_ready u q pre' s' ns' nb']
  have "fst (migrate ?e []) = Threw StoppedAtFirstFailure"
    unfolding Let_def by blast
  moreover have "map (\<lambda>entry. (fst entry, installed_rank (snd entry), success (snd entry)))
          (history (snd (migrate failing_env []))) = [(''fireway/0-1.0.0-first'', 0, False)]"
    by (simp add: run_eval demo_scan failing_scripts_eval)
  moreover have "map (\<lambda>r. (script r, installed_rank r, success r))
          (history_writes (snd (migrate failing_env []))) = [(''v1__first.js'', 0, False)]"
    by (simp add: run_eval demo_scan failing_scripts_eval history_writes_def)
  moreover have "map (\<lambda>r. (script r, installed_rank r, success r))
          (history_writes (snd (migrate ?e []))) = [(''v1__first.js'', 0, False)]"
    by (simp add: run_eval demo_scan rejecting_scripts_eval history_writes_def)
  moreover have "map (\<lambda>r. (script r, installed_rank r, success r))
          (history_writes (snd (migrate dry_failing_env []))) = [(''v1__first.js'', 0, False)]
      \<and> history (snd (migrate dry_failing_env [])) = []"
    by (simp add: run_eval demo_scan failing_scripts_eval history_writes_def)
  ultimately show ?thesis using failing_ready u p s s' ns ns' nb by simp
qed

text \<open>
  C3 as stated fails: in a dry run the entry point of the first migration throws, the run
  stops at first failure, and no history record has been appended.
\<close>

theorem dry_run_failure_not_recorded:
  "scripts dry_failing_env ''/m/v1__first.js'' = Inr (first_script\<lparr>throws := Some ''boom''\<rparr>)
   \<and> map filename (executed (snd (migrate dry_failing_env []))) = [''v1__first.js'']
   \<and> fst (migrate dry_failing_env []) = Threw StoppedAtFirstFailure
   \<and> history (snd (migrate dry_failing_env [])) = []"
  by (simp add: run_eval demo_scan failing_scripts_eval)

end
